theory Spec2Isabelle
  imports Complex_Main "HOL-Library.Word" "HOL-Library.Log_Nat" "HOL-Library.Multiset"
begin

section \<open>Byte strings\<close>

text \<open>
  A Go string is a sequence of bytes; \<^typ>\<open>string\<close> is a list of 8-bit characters.
  The functions below are the ones of package \<^verbatim>\<open>strings\<close> that the program calls.
\<close>

definition HasSuffix :: "string \<Rightarrow> string \<Rightarrow> bool" where
  "HasSuffix s suf \<longleftrightarrow> length suf \<le> length s \<and> drop (length s - length suf) s = suf"

definition TrimSuffix :: "string \<Rightarrow> string \<Rightarrow> string" where
  "TrimSuffix s suf = (if HasSuffix s suf then take (length s - length suf) s else s)"

fun Contains :: "string \<Rightarrow> string \<Rightarrow> bool" where
  "Contains [] sub = (sub = [])"
| "Contains (c # cs) sub = (take (length sub) (c # cs) = sub \<or> Contains cs sub)"

text \<open>
  The UTF-8 encodings of the runes for which \<^verbatim>\<open>unicode.IsSpace\<close> holds: tab, line feed,
  vertical tab, form feed, carriage return, space, U+0085, U+00A0, U+1680, U+2000 to
  U+200A, U+2028, U+2029, U+202F, U+205F and U+3000.  Each begins with a byte that is
  never a continuation byte, so matching these byte sequences at the front (or at the
  back) of a string agrees with decoding a rune there.
\<close>

definition space_seqs :: "string list" where
  "space_seqs =
    [[CHR 0x09], [CHR 0x0A], [CHR 0x0B], [CHR 0x0C], [CHR 0x0D], [CHR 0x20],
     [CHR 0xC2, CHR 0x85], [CHR 0xC2, CHR 0xA0],
     [CHR 0xE1, CHR 0x9A, CHR 0x80],
     [CHR 0xE2, CHR 0x80, CHR 0x80], [CHR 0xE2, CHR 0x80, CHR 0x81],
     [CHR 0xE2, CHR 0x80, CHR 0x82], [CHR 0xE2, CHR 0x80, CHR 0x83],
     [CHR 0xE2, CHR 0x80, CHR 0x84], [CHR 0xE2, CHR 0x80, CHR 0x85],
     [CHR 0xE2, CHR 0x80, CHR 0x86], [CHR 0xE2, CHR 0x80, CHR 0x87],
     [CHR 0xE2, CHR 0x80, CHR 0x88], [CHR 0xE2, CHR 0x80, CHR 0x89],
     [CHR 0xE2, CHR 0x80, CHR 0x8A],
     [CHR 0xE2, CHR 0x80, CHR 0xA8], [CHR 0xE2, CHR 0x80, CHR 0xA9],
     [CHR 0xE2, CHR 0x80, CHR 0xAF], [CHR 0xE2, CHR 0x81, CHR 0x9F],
     [CHR 0xE3, CHR 0x80, CHR 0x80]]"

definition is_prefix :: "string \<Rightarrow> string \<Rightarrow> bool" where
  "is_prefix p s \<longleftrightarrow> take (length p) s = p"

text \<open>The number of bytes of the white-space rune at the front of a string, 0 if none.\<close>

definition space_width :: "string list \<Rightarrow> string \<Rightarrow> nat" where
  "space_width seqs s = (case List.find (\<lambda>p. is_prefix p s) seqs of None \<Rightarrow> 0 | Some p \<Rightarrow> length p)"

fun trim_left :: "string list \<Rightarrow> string \<Rightarrow> string" where
  "trim_left seqs [] = []"
| "trim_left seqs (c # cs) =
     (if space_width seqs (c # cs) = 0 then c # cs
      else trim_left seqs (drop (space_width seqs (c # cs) - 1) cs))"

definition TrimLeftSpace :: "string \<Rightarrow> string" where
  "TrimLeftSpace s = trim_left space_seqs s"

definition TrimRightSpace :: "string \<Rightarrow> string" where
  "TrimRightSpace s = rev (trim_left (map rev space_seqs) (rev s))"

definition TrimSpace :: "string \<Rightarrow> string" where
  "TrimSpace s = TrimRightSpace (TrimLeftSpace s)"

text \<open>
  \<^verbatim>\<open>strings.Fields\<close>: the maximal runs of bytes between white-space runes; the loop keeps
  the field being collected (reversed) and the fields found so far (reversed).
\<close>

fun fields_loop :: "string \<Rightarrow> string list \<Rightarrow> string \<Rightarrow> string list" where
  "fields_loop cur acc [] = rev (if cur = [] then acc else rev cur # acc)"
| "fields_loop cur acc (c # cs) =
     (if space_width space_seqs (c # cs) = 0 then fields_loop (c # cur) acc cs
      else fields_loop [] (if cur = [] then acc else rev cur # acc)
             (drop (space_width space_seqs (c # cs) - 1) cs))"

definition Fields :: "string \<Rightarrow> string list" where
  "Fields s = fields_loop [] [] s"

section \<open>Decimal digits\<close>

definition is_digit :: "char \<Rightarrow> bool" where
  "is_digit c \<longleftrightarrow> c \<in> set ''0123456789''"

definition digit_val :: "char \<Rightarrow> int" where
  "digit_val c = of_char c - 48"

text \<open>The number a string of decimal digits denotes, most significant digit first.\<close>

definition digits_val :: "string \<Rightarrow> int" where
  "digits_val ds = foldl (\<lambda>n c. n * 10 + digit_val c) 0 ds"

section \<open>float64\<close>

text \<open>
  A float64 value: \<open>Fin m e\<close> is the finite number \<open>m * 2 ^ e\<close> (several pairs may denote
  the same number; the sign of zero is not represented, no operation below depends on
  it), \<open>Inf True\<close> is negative infinity, \<open>Inf False\<close> positive infinity.
\<close>

datatype f64 = Fin int int | Inf bool | NaN

definition valof :: "f64 \<Rightarrow> rat option" where
  "valof x = (case x of Fin m e \<Rightarrow> Some (of_int m * 2 powi e) | _ \<Rightarrow> None)"

text \<open>\<open>p / q\<close> rounded to the nearest integer, ties to the even one (\<open>0 \<le> p\<close>, \<open>0 < q\<close>).\<close>

definition rne_div :: "int \<Rightarrow> int \<Rightarrow> int" where
  "rne_div p q =
     (let n = p div q; r = p mod q
      in if 2 * r < q then n else if q < 2 * r then n + 1 else if even n then n else n + 1)"

text \<open>The integer \<open>e\<close> with \<open>2 ^ e \<le> p / q < 2 ^ (e + 1)\<close>, for positive \<open>p\<close> and \<open>q\<close>.\<close>

definition ilog2 :: "int \<Rightarrow> int \<Rightarrow> int" where
  "ilog2 p q =
     (let d = bitlen p - bitlen q
      in if q * 2 ^ nat d \<le> p * 2 ^ nat (- d) then d else d - 1)"

text \<open>
  The float64 nearest to \<open>p / q\<close> (with the sign \<open>neg\<close>), ties to even: 53 significant
  bits, the exponent of the leading bit at least \<open>-1022\<close> (below that the spacing stays
  \<open>2 ^ -1074\<close>), infinity once the rounded value reaches \<open>2 ^ 1024\<close>.
\<close>

definition round_ratio :: "bool \<Rightarrow> int \<Rightarrow> int \<Rightarrow> f64" where
  "round_ratio neg p q =
     (if p = 0 then Fin 0 0
      else let e = max (ilog2 p q) (- 1022);
               s = 52 - e;
               n = rne_div (p * 2 ^ nat s) (q * 2 ^ nat (- s))
           in if 2 ^ 1024 \<le> n * 2 ^ nat (- s) then Inf neg
              else Fin (if neg then - n else n) (- s))"

text \<open>A non-negative integer constant as a float64.\<close>

definition f64_of_int :: "int \<Rightarrow> f64" where
  "f64_of_int k = round_ratio False k 1"

text \<open>
  The pair that \<open>round_ratio\<close> produces for an integer \<open>0 \<le> k < 2 ^ 53\<close>: the integer
  itself, written with 53 significant bits.
\<close>

definition exact :: "int \<Rightarrow> f64" where
  "exact k = (if k = 0 then Fin 0 0 else Fin (k * 2 ^ nat (53 - bitlen k)) (bitlen k - 53))"

text \<open>The product of two float64 values, rounded once.\<close>

fun f64_mul :: "f64 \<Rightarrow> f64 \<Rightarrow> f64" where
  "f64_mul (Fin m1 e1) (Fin m2 e2) =
     round_ratio (m1 * m2 < 0) (\<bar>m1 * m2\<bar> * 2 ^ nat (e1 + e2)) (2 ^ nat (- (e1 + e2)))"
| "f64_mul (Inf a) (Inf b) = Inf (a \<noteq> b)"
| "f64_mul (Inf a) (Fin m e) = (if m = 0 then NaN else Inf (a \<noteq> (m < 0)))"
| "f64_mul (Fin m e) (Inf b) = (if m = 0 then NaN else Inf ((m < 0) \<noteq> b))"
| "f64_mul NaN y = NaN"
| "f64_mul x NaN = NaN"

text \<open>
  The conversion \<^verbatim>\<open>uint64(x)\<close> of a float64: the fraction is discarded (truncation towards
  zero).  When the truncated value is not a uint64 (or \<open>x\<close> is not finite) the
  conversion succeeds and the result depends on the implementation; it is the
  parameter \<open>impl\<close> (the program is built for amd64 and for arm64, which differ).
\<close>

definition trunc_f64 :: "int \<Rightarrow> int \<Rightarrow> int" where
  "trunc_f64 m e =
     (if 0 \<le> m then (m * 2 ^ nat e) div 2 ^ nat (- e)
      else - ((- m * 2 ^ nat e) div 2 ^ nat (- e)))"

definition F64toUint64 :: "(f64 \<Rightarrow> 64 word) \<Rightarrow> f64 \<Rightarrow> 64 word" where
  "F64toUint64 impl x =
     (case x of
        Fin m e \<Rightarrow>
          (if 0 \<le> trunc_f64 m e \<and> trunc_f64 m e < 2 ^ 64 then word_of_int (trunc_f64 m e)
           else impl x)
      | _ \<Rightarrow> impl x)"

text \<open>
  One implementation, used for concrete runs: on arm64 the conversion saturates (not
  a number and everything below zero give 0, everything too large the largest uint64).
\<close>

definition uint64_arm64 :: "f64 \<Rightarrow> 64 word" where
  "uint64_arm64 x =
     (case x of
        Fin m e \<Rightarrow> if m < 0 then 0 else - 1
      | Inf neg \<Rightarrow> if neg then 0 else - 1
      | NaN \<Rightarrow> 0)"

text \<open>Whether a float64 is a number between 0 and 100.\<close>

definition in_percent_range :: "f64 \<Rightarrow> bool" where
  "in_percent_range x = (case valof x of None \<Rightarrow> False | Some v \<Rightarrow> 0 \<le> v \<and> v \<le> 100)"

section \<open>Package strconv\<close>

datatype NumError = ErrSyntax | ErrRange

subsection \<open>ParseFloat\<close>

definition to_lower :: "char \<Rightarrow> char" where
  "to_lower c =
     (case map_of (zip ''ABCDEFGHIJKLMNOPQRSTUVWXYZ'' ''abcdefghijklmnopqrstuvwxyz'') c of
        None \<Rightarrow> c | Some l \<Rightarrow> l)"

fun commonPrefixLenIgnoreCase :: "string \<Rightarrow> string \<Rightarrow> nat" where
  "commonPrefixLenIgnoreCase (c # cs) (p # ps) =
     (if to_lower c = p then Suc (commonPrefixLenIgnoreCase cs ps) else 0)"
| "commonPrefixLenIgnoreCase _ _ = 0"

definition inf_prefix :: "bool \<Rightarrow> nat \<Rightarrow> string \<Rightarrow> (f64 \<times> nat) option" where
  "inf_prefix neg nsign s =
     (let n0 = commonPrefixLenIgnoreCase s ''infinity'';
          n = (if 3 < n0 \<and> n0 < 8 then 3 else n0)
      in if n = 3 \<or> n = 8 then Some (Inf neg, nsign + n) else None)"

text \<open>\<^verbatim>\<open>special\<close>: infinities and NaN, with the number of bytes read.\<close>

definition special :: "string \<Rightarrow> (f64 \<times> nat) option" where
  "special s =
     (case s of
        [] \<Rightarrow> None
      | c # cs \<Rightarrow>
          if c = CHR ''+'' \<or> c = CHR ''-'' then inf_prefix (c = CHR ''-'') 1 cs
          else if c = CHR ''i'' \<or> c = CHR ''I'' then inf_prefix False 0 s
          else if c = CHR ''n'' \<or> c = CHR ''N'' then
            (if commonPrefixLenIgnoreCase s ''nan'' = 3 then Some (NaN, 3) else None)
          else None)"

definition is_hex_letter :: "char \<Rightarrow> bool" where
  "is_hex_letter c \<longleftrightarrow> c \<in> set ''abcdefABCDEF''"

definition hex_val :: "char \<Rightarrow> int" where
  "hex_val c = of_char (to_lower c) - 87"

text \<open>
  The mantissa loop of \<^verbatim>\<open>readFloat\<close>.  The state keeps the number that all the digits
  read so far denote and how many of them came after the point: the source keeps 19
  digits and a truncation flag and reads the rest again on its slow path, to the same
  correctly rounded result.
\<close>

record mstate =
  sawdot :: bool
  sawdigits :: bool
  mant :: int
  fracd :: nat
  underscores :: bool

definition push_digit :: "int \<Rightarrow> int \<Rightarrow> mstate \<Rightarrow> mstate" where
  "push_digit base d st =
     st\<lparr>sawdigits := True, mant := mant st * base + d,
        fracd := (if sawdot st then fracd st + 1 else fracd st)\<rparr>"

fun mant_loop :: "bool \<Rightarrow> mstate \<Rightarrow> string \<Rightarrow> mstate \<times> string" where
  "mant_loop hex st [] = (st, [])"
| "mant_loop hex st (c # cs) =
     (if c = CHR ''_'' then mant_loop hex (st\<lparr>underscores := True\<rparr>) cs
      else if c = CHR ''.'' then
        (if sawdot st then (st, c # cs) else mant_loop hex (st\<lparr>sawdot := True\<rparr>) cs)
      else if is_digit c then mant_loop hex (push_digit (if hex then 16 else 10) (digit_val c) st) cs
      else if hex \<and> is_hex_letter c then mant_loop hex (push_digit 16 (hex_val c) st) cs
      else (st, c # cs))"

text \<open>The digits of the exponent; the source stops accumulating at 10000.\<close>

fun exp_loop :: "int \<Rightarrow> bool \<Rightarrow> string \<Rightarrow> int \<times> bool \<times> string" where
  "exp_loop e us [] = (e, us, [])"
| "exp_loop e us (c # cs) =
     (if c = CHR ''_'' then exp_loop e True cs
      else if is_digit c then exp_loop (if e < 10000 then e * 10 + digit_val c else e) us cs
      else (e, us, c # cs))"

text \<open>
  The optional exponent: \<open>None\<close> is a syntax error, otherwise the signed exponent, the
  underscore flag and the rest of the input.
\<close>

definition read_exp :: "bool \<Rightarrow> bool \<Rightarrow> string \<Rightarrow> (int \<times> bool \<times> string) option" where
  "read_exp hex us s =
     (case s of
        [] \<Rightarrow> (if hex then None else Some (0, us, s))
      | c # cs \<Rightarrow>
          if to_lower c = (if hex then CHR ''p'' else CHR ''e'') then
            (case cs of
               [] \<Rightarrow> None
             | d # ds \<Rightarrow>
                 let body = (if d = CHR ''+'' \<or> d = CHR ''-'' then ds else cs) in
                 (case body of
                    [] \<Rightarrow> None
                  | b # bs \<Rightarrow>
                      if is_digit b then
                        (case exp_loop 0 us body of
                           (e, us', rest) \<Rightarrow>
                             Some (if d = CHR ''-'' then - e else e, us', rest))
                      else None))
          else if hex then None
          else Some (0, us, s))"

text \<open>\<^verbatim>\<open>underscoreOK\<close>: underscores only between digits, or after a base prefix.\<close>

fun us_loop :: "bool \<Rightarrow> char \<Rightarrow> string \<Rightarrow> bool" where
  "us_loop hex saw [] = (saw \<noteq> CHR ''_'')"
| "us_loop hex saw (c # cs) =
     (if is_digit c \<or> (hex \<and> is_hex_letter c) then us_loop hex (CHR ''0'') cs
      else if c = CHR ''_'' then (saw = CHR ''0'' \<and> us_loop hex (CHR ''_'') cs)
      else if saw = CHR ''_'' then False
      else us_loop hex (CHR ''!'') cs)"

definition underscoreOK :: "string \<Rightarrow> bool" where
  "underscoreOK s0 =
     (let s = (case s0 of c # cs \<Rightarrow> if c = CHR ''-'' \<or> c = CHR ''+'' then cs else s0 | [] \<Rightarrow> s0)
      in case s of
           a # b # cs \<Rightarrow>
             if a = CHR ''0'' \<and> to_lower b \<in> set ''box''
             then us_loop (to_lower b = CHR ''x'') (CHR ''0'') cs
             else us_loop False (CHR ''^'') s
         | _ \<Rightarrow> us_loop False (CHR ''^'') s)"

text \<open>
  \<^verbatim>\<open>readFloat\<close>: sign, base, the number the mantissa digits denote, the number of digits
  after the point, the exponent, and the number of bytes read; \<open>None\<close> when the input
  does not start with a number.
\<close>

definition readFloat :: "string \<Rightarrow> (bool \<times> bool \<times> int \<times> nat \<times> int \<times> nat) option" where
  "readFloat s =
     (case s of
        [] \<Rightarrow> None
      | c # cs \<Rightarrow>
          let neg = (c = CHR ''-'');
              s1 = (if c = CHR ''+'' \<or> c = CHR ''-'' then cs else s);
              hex = (2 < length s1 \<and> s1 ! 0 = CHR ''0'' \<and> to_lower (s1 ! 1) = CHR ''x'');
              s2 = (if hex then drop 2 s1 else s1)
          in case mant_loop hex \<lparr>sawdot = False, sawdigits = False, mant = 0, fracd = 0,
                                  underscores = False\<rparr> s2 of
               (st, s3) \<Rightarrow>
                 if \<not> sawdigits st then None
                 else (case read_exp hex (underscores st) s3 of
                         None \<Rightarrow> None
                       | Some (e, us, s4) \<Rightarrow>
                           let n = length s - length s4
                           in if us \<and> \<not> underscoreOK (take n s) then None
                              else Some (neg, hex, mant st, fracd st, e, n)))"

text \<open>
  The value read: \<open>mant * 10 ^ (e - fracd)\<close>, in base 16 \<open>mant * 2 ^ (e - 4 * fracd)\<close>,
  correctly rounded; an overflow gives the infinity and a range error.
\<close>

definition float_of_parts :: "bool \<Rightarrow> bool \<Rightarrow> int \<Rightarrow> nat \<Rightarrow> int \<Rightarrow> f64" where
  "float_of_parts neg hex m fd e =
     (if hex then round_ratio neg (m * 2 ^ nat (e - 4 * int fd)) (2 ^ nat (4 * int fd - e))
      else round_ratio neg (m * 10 ^ nat (e - int fd)) (10 ^ nat (int fd - e)))"

definition is_inf :: "f64 \<Rightarrow> bool" where
  "is_inf x = (case x of Inf _ \<Rightarrow> True | _ \<Rightarrow> False)"

definition ParseFloat :: "string \<Rightarrow> f64 \<times> NumError option" where
  "ParseFloat s =
     (case special s of
        Some (v, n) \<Rightarrow> if n = length s then (v, None) else (Fin 0 0, Some ErrSyntax)
      | None \<Rightarrow>
          (case readFloat s of
             None \<Rightarrow> (Fin 0 0, Some ErrSyntax)
           | Some (neg, hex, m, fd, e, n) \<Rightarrow>
               if n \<noteq> length s then (Fin 0 0, Some ErrSyntax)
               else let f = float_of_parts neg hex m fd e
                    in (f, if is_inf f then Some ErrRange else None)))"

subsection \<open>ParseUint and Atoi\<close>

text \<open>
  The digit loop of \<^verbatim>\<open>ParseUint(s, 10, bitSize)\<close>: a byte that is not a decimal digit is
  a syntax error with value 0; as soon as the number read exceeds the largest value
  the loop returns that largest value with a range error, before looking at the
  bytes that follow.
\<close>

fun uint_loop :: "int \<Rightarrow> int \<Rightarrow> string \<Rightarrow> int \<times> NumError option" where
  "uint_loop maxVal n [] = (n, None)"
| "uint_loop maxVal n (c # cs) =
     (if \<not> is_digit c then (0, Some ErrSyntax)
      else if (2 ^ 64 - 1) div 10 + 1 \<le> n then (maxVal, Some ErrRange)
      else if 2 ^ 64 \<le> n * 10 + digit_val c \<or> maxVal < n * 10 + digit_val c
        then (maxVal, Some ErrRange)
      else uint_loop maxVal (n * 10 + digit_val c) cs)"

definition ParseUint10 :: "nat \<Rightarrow> string \<Rightarrow> int \<times> NumError option" where
  "ParseUint10 bitSize s =
     (if s = [] then (0, Some ErrSyntax) else uint_loop (2 ^ bitSize - 1) 0 s)"

text \<open>\<^verbatim>\<open>ParseInt(s, 10, 0)\<close> on a platform whose \<^verbatim>\<open>int\<close> has 64 bits.\<close>

definition ParseInt10 :: "string \<Rightarrow> int \<times> NumError option" where
  "ParseInt10 s =
     (case s of
        [] \<Rightarrow> (0, Some ErrSyntax)
      | c # cs \<Rightarrow>
          let neg = (c = CHR ''-'');
              body = (if c = CHR ''+'' \<or> c = CHR ''-'' then cs else s)
          in case ParseUint10 64 body of
               (un, Some ErrSyntax) \<Rightarrow> (0, Some ErrSyntax)
             | (un, _) \<Rightarrow>
                 if \<not> neg \<and> 2 ^ 63 \<le> un then (2 ^ 63 - 1, Some ErrRange)
                 else if neg \<and> 2 ^ 63 < un then (- (2 ^ 63), Some ErrRange)
                 else (if neg then - un else un, None))"

text \<open>
  \<^verbatim>\<open>Atoi\<close>: its fast path for short strings computes the same value and the same kind
  of error as \<^verbatim>\<open>ParseInt(s, 10, 0)\<close>, its slow path is that call.
\<close>

definition Atoi :: "string \<Rightarrow> int \<times> NumError option" where
  "Atoi s = ParseInt10 s"

section \<open>The collector (main.go, mode server)\<close>

subsection \<open>Data\<close>

record ProcessInfo =
  PID :: "32 word"
  ProcName :: string
  Used :: "64 word"

record GPUInfo =
  ID :: string
  GPUName :: string
  Utilization :: f64
  MemoryUsed :: "64 word"
  MemoryTotal :: "64 word"
  Temperature :: "32 word"
  PowerUsage :: "64 word"
  PowerLimit :: "64 word"
  Processes :: "ProcessInfo list"

text \<open>The structure that \<^verbatim>\<open>xml.Unmarshal\<close> fills from the output of nvidia-smi.\<close>

record Process =
  xPID :: string
  xProcessName :: string
  xUsedMemory :: string

record GPU =
  xID :: string
  xProductName :: string
  xFBTotal :: string
  xFBUsed :: string
  xFBFree :: string
  xGPUUtil :: string
  xGPUTemp :: string
  xPowerDraw :: string
  xPowerLimit :: string
  xProcesses :: "Process list"

record SMIOutput =
  AttachedGPUs :: int
  GPUs :: "GPU list"

subsection \<open>The unit normalizers\<close>

definition parseMemoryValue :: "(f64 \<Rightarrow> 64 word) \<Rightarrow> string \<Rightarrow> 64 word" where
  "parseMemoryValue impl value0 =
     (let value = TrimSpace value0 in
      if HasSuffix value ''MiB'' then
        (let numStr = TrimSuffix value '' MiB''; num = fst (ParseFloat numStr)
         in F64toUint64 impl (f64_mul (f64_mul num (f64_of_int 1024)) (f64_of_int 1024)))
      else if HasSuffix value ''GiB'' then
        (let numStr = TrimSuffix value '' GiB''; num = fst (ParseFloat numStr)
         in F64toUint64 impl
              (f64_mul (f64_mul (f64_mul num (f64_of_int 1024)) (f64_of_int 1024)) (f64_of_int 1024)))
      else if HasSuffix value ''KiB'' then
        (let numStr = TrimSuffix value '' KiB''; num = fst (ParseFloat numStr)
         in F64toUint64 impl (f64_mul num (f64_of_int 1024)))
      else if HasSuffix value ''B'' \<and> \<not> Contains value ''iB'' then
        (let numStr = TrimSuffix value ''B''; num = fst (ParseFloat numStr)
         in F64toUint64 impl num)
      else 0)"

definition parsePowerValue :: "(f64 \<Rightarrow> 64 word) \<Rightarrow> string \<Rightarrow> 64 word" where
  "parsePowerValue impl value0 =
     (let value = TrimSpace value0 in
      if HasSuffix value ''W'' then
        (let numStr = TrimSuffix value '' W''; num = fst (ParseFloat numStr)
         in F64toUint64 impl (f64_mul num (f64_of_int 1000)))
      else if value = ''N/A'' \<or> value = [] then 0
      else (case ParseFloat value of
              (num, None) \<Rightarrow> F64toUint64 impl (f64_mul num (f64_of_int 1000))
            | (num, Some err) \<Rightarrow> 0))"

definition parseUtilization :: "string \<Rightarrow> f64" where
  "parseUtilization u =
     (if HasSuffix u '' %'' then fst (ParseFloat (TrimSuffix u '' %'')) else Fin 0 0)"

definition parseTemperature :: "string \<Rightarrow> 32 word" where
  "parseTemperature t =
     (if HasSuffix t '' C'' then word_of_int (fst (ParseUint10 32 (TrimSuffix t '' C''))) else 0)"

subsection \<open>The parser\<close>

text \<open>The zero values of the two structures, with which \<^verbatim>\<open>make\<close> fills a new slice.\<close>

definition zeroProcessInfo :: ProcessInfo where
  "zeroProcessInfo = \<lparr>PID = 0, ProcName = [], Used = 0\<rparr>"

definition zeroGPUInfo :: GPUInfo where
  "zeroGPUInfo =
     \<lparr>ID = [], GPUName = [], Utilization = Fin 0 0, MemoryUsed = 0, MemoryTotal = 0,
      Temperature = 0, PowerUsage = 0, PowerLimit = 0, Processes = []\<rparr>"

definition convertProcess :: "(f64 \<Rightarrow> 64 word) \<Rightarrow> Process \<Rightarrow> ProcessInfo" where
  "convertProcess impl proc =
     \<lparr>PID = word_of_int (fst (ParseUint10 32 (xPID proc))),
      ProcName = xProcessName proc,
      Used = parseMemoryValue impl (xUsedMemory proc)\<rparr>"

text \<open>
  \<^verbatim>\<open>for j, proc := range gpu.Processes.ProcessInfo { ... processes[j] = ... }\<close>: the
  elements still to visit, the index of the first of them, and the slice being filled.
\<close>

fun processes_loop ::
  "(f64 \<Rightarrow> 64 word) \<Rightarrow> Process list \<Rightarrow> nat \<Rightarrow> ProcessInfo list \<Rightarrow> ProcessInfo list"
where
  "processes_loop impl [] j processes = processes"
| "processes_loop impl (proc # rest) j processes =
     processes_loop impl rest (Suc j) (processes[j := convertProcess impl proc])"

definition convertGPU :: "(f64 \<Rightarrow> 64 word) \<Rightarrow> GPU \<Rightarrow> GPUInfo" where
  "convertGPU impl gpu =
     \<lparr>ID = xID gpu,
      GPUName = xProductName gpu,
      Utilization = parseUtilization (xGPUUtil gpu),
      MemoryUsed = parseMemoryValue impl (xFBUsed gpu),
      MemoryTotal = parseMemoryValue impl (xFBTotal gpu),
      Temperature = parseTemperature (xGPUTemp gpu),
      PowerUsage = parsePowerValue impl (xPowerDraw gpu),
      PowerLimit = parsePowerValue impl (xPowerLimit gpu),
      Processes = processes_loop impl (xProcesses gpu) 0
                    (replicate (length (xProcesses gpu)) zeroProcessInfo)\<rparr>"

text \<open>\<^verbatim>\<open>for i, gpu := range smiOutput.GPUs { ... gpus[i] = ... }\<close>, in the same way.\<close>

fun gpus_loop :: "(f64 \<Rightarrow> 64 word) \<Rightarrow> GPU list \<Rightarrow> nat \<Rightarrow> GPUInfo list \<Rightarrow> GPUInfo list" where
  "gpus_loop impl [] i gpus = gpus"
| "gpus_loop impl (gpu # rest) i gpus = gpus_loop impl rest (Suc i) (gpus[i := convertGPU impl gpu])"

text \<open>
  \<^verbatim>\<open>getGPUInfoFromNvidiaSmi\<close>.  The two collaborators are inputs: \<open>cmd\<close> is what running
  \<^verbatim>\<open>nvidia-smi -q -x\<close> gave (its output, or the text of the error), \<open>unmarshal\<close> is
  \<^verbatim>\<open>xml.Unmarshal\<close> into an \<open>SMIOutput\<close>.
\<close>

definition getGPUInfoFromNvidiaSmi ::
  "(f64 \<Rightarrow> 64 word) \<Rightarrow> (string \<Rightarrow> string + SMIOutput) \<Rightarrow> string + string \<Rightarrow> string + GPUInfo list"
where
  "getGPUInfoFromNvidiaSmi impl unmarshal cmd =
     (case cmd of
        Inl err \<Rightarrow> Inl (''failed to run nvidia-smi: '' @ err)
      | Inr output \<Rightarrow>
          (case unmarshal output of
             Inl err \<Rightarrow> Inl (''failed to parse nvidia-smi XML output: '' @ err)
           | Inr smiOutput \<Rightarrow>
               Inr (gpus_loop impl (GPUs smiOutput) 0
                      (replicate (length (GPUs smiOutput)) zeroGPUInfo))))"

section \<open>The aggregator (main.go, mode aggregator)\<close>

subsection \<open>Data\<close>

type_synonym Time = nat

record NodeConfig =
  Name :: string
  Host :: string
  Port :: int
  Alias :: string

record AggregatorConfig =
  Nodes :: "NodeConfig list"
  AggregatorPort :: int

record NodeInfo =
  NodeName :: string
  Timestamp :: Time
  NodeGPUs :: "GPUInfo list"

text \<open>
  \<open>NodeStatus\<close> embeds \<open>NodeConfig\<close>.  \<open>Data\<close> is a pointer to a \<open>NodeInfo\<close> that is
  allocated by the update that stores it and never written afterwards: \<open>None\<close> is nil.
\<close>

record NodeStatus = NodeConfig +
  LastUpdate :: Time
  Status :: string
  Data :: "NodeInfo option"
  Error :: string

text \<open>
  The map of the aggregator holds pointers to \<open>NodeStatus\<close> objects.  The objects
  live in \<open>heap\<close>, a pointer is an index into it, and the updates write through the
  pointer: whoever holds the pointer sees the write.
\<close>

type_synonym addr = nat

record Aggregator =
  config :: AggregatorConfig
  nodes :: "string \<rightharpoonup> addr"
  heap :: "NodeStatus list"

definition deref :: "Aggregator \<Rightarrow> addr \<Rightarrow> NodeStatus option" where
  "deref a p = (if p < length (heap a) then Some (heap a ! p) else None)"

definition status_of :: "Aggregator \<Rightarrow> string \<Rightarrow> NodeStatus option" where
  "status_of a name = (case nodes a name of None \<Rightarrow> None | Some p \<Rightarrow> deref a p)"

subsection \<open>Start\<close>

text \<open>
  The part of \<^verbatim>\<open>runAggregator\<close> that creates the aggregator and initializes the node
  statuses: one new \<open>NodeStatus\<close> per configured node, in the order of the
  configuration, stored under the node's name.
\<close>

fun init_nodes :: "NodeConfig list \<Rightarrow> Aggregator \<Rightarrow> Aggregator" where
  "init_nodes [] a = a"
| "init_nodes (node # rest) a =
     init_nodes rest
       (a\<lparr>nodes := (nodes a)(Name node \<mapsto> length (heap a)),
          heap := heap a @ [\<lparr>Name = Name node, Host = Host node, Port = Port node,
                             Alias = Alias node, LastUpdate = 0, Status = ''unknown'',
                             Data = None, Error = []\<rparr>]\<rparr>)"

definition runAggregator :: "AggregatorConfig \<Rightarrow> Aggregator" where
  "runAggregator cfg = init_nodes (Nodes cfg) \<lparr>config = cfg, nodes = Map.empty, heap = []\<rparr>"

subsection \<open>Updates\<close>

text \<open>The verb \<^verbatim>\<open>%d\<close> of \<^verbatim>\<open>fmt.Sprintf\<close>.\<close>

fun show_nat :: "nat \<Rightarrow> string" where
  "show_nat n =
     (if n < 10 then [char_of (48 + n)] else show_nat (n div 10) @ [char_of (48 + n mod 10)])"

definition show_int :: "int \<Rightarrow> string" where
  "show_int i = (if i < 0 then CHR ''-'' # show_nat (nat (- i)) else show_nat (nat i))"

definition updateNodeError :: "Aggregator \<Rightarrow> string \<Rightarrow> string \<Rightarrow> Time \<Rightarrow> Aggregator" where
  "updateNodeError a nodeName errorMsg now =
     (case nodes a nodeName of
        None \<Rightarrow> a
      | Some p \<Rightarrow>
          a\<lparr>heap := (heap a)[p := (heap a ! p)\<lparr>LastUpdate := now, Status := ''offline'',
                                               Data := None, Error := errorMsg\<rparr>]\<rparr>)"

text \<open>
  What one fetch gave: the request could not be created, the client returned an
  error (refused, timed out), or there is a response with its status code and what
  decoding its body gives (the text of the error, or the \<open>NodeInfo\<close>).
\<close>

datatype Fetch =
    NewRequestFailed string
  | DoFailed string
  | Response int "string + NodeInfo"

definition updateNodeStatus :: "Aggregator \<Rightarrow> NodeConfig \<Rightarrow> Fetch \<Rightarrow> Time \<Rightarrow> Aggregator" where
  "updateNodeStatus a node fetch now =
     (case fetch of
        NewRequestFailed err \<Rightarrow>
          updateNodeError a (Name node) (''Failed to create request: '' @ err) now
      | DoFailed err \<Rightarrow> updateNodeError a (Name node) (''Failed to connect: '' @ err) now
      | Response code body \<Rightarrow>
          if code \<noteq> 200 then updateNodeError a (Name node) (''HTTP error: '' @ show_int code) now
          else (case body of
                  Inl err \<Rightarrow>
                    updateNodeError a (Name node) (''Failed to parse response: '' @ err) now
                | Inr nodeInfo \<Rightarrow>
                    (case nodes a (Name node) of
                       None \<Rightarrow> a
                     | Some p \<Rightarrow>
                         a\<lparr>heap := (heap a)[p := (heap a ! p)\<lparr>LastUpdate := now,
                                Status := ''online'', Data := Some nodeInfo, Error := []\<rparr>]\<rparr>)))"

text \<open>Any number of updates, one after the other, each with its node, outcome and time.\<close>

fun run_updates :: "Aggregator \<Rightarrow> (NodeConfig \<times> Fetch \<times> Time) list \<Rightarrow> Aggregator" where
  "run_updates a [] = a"
| "run_updates a ((node, fetch, now) # evs) = run_updates (updateNodeStatus a node fetch now) evs"

definition succeeded :: "Fetch \<Rightarrow> bool" where
  "succeeded fetch = (case fetch of Response code (Inr nodeInfo) \<Rightarrow> code = 200 | _ \<Rightarrow> False)"

subsection \<open>Listing\<close>

text \<open>
  \<^verbatim>\<open>nodesHandler\<close> has two parts.  Holding the read lock it appends the pointers found
  in the map to a new slice (\<open>keys\<close> is the order in which the runtime iterates over
  the map).  After releasing the lock it encodes the slice: the encoder follows each
  pointer and reads the object as it is at that moment, which is the state of the
  aggregator passed to \<open>encode_nodes\<close>.
\<close>

definition collect_nodes :: "string list \<Rightarrow> Aggregator \<Rightarrow> addr list" where
  "collect_nodes keys a = List.map_filter (nodes a) keys"

definition encode_nodes :: "Aggregator \<Rightarrow> addr list \<Rightarrow> NodeStatus option list" where
  "encode_nodes a ptrs = map (deref a) ptrs"

subsection \<open>The polling loop\<close>

text \<open>
  \<^verbatim>\<open>pollNodes\<close> and \<^verbatim>\<open>updateNodeStatuses\<close> as a transition system.  The polling
  goroutine is at one of three places: in the loop over the configured nodes, about
  to launch the fetch of node \<open>i\<close> (\<open>Spawning i\<close>); blocked in \<^verbatim>\<open>wg.Wait()\<close>
  (\<open>Waiting\<close>); blocked on the ticker channel (\<open>TimerWait\<close>).  \<open>wg\<close> is the counter of
  the wait group, \<open>running\<close> the fetches launched and not yet resolved, each with the
  number of the tick that launched it and the index of its node.  A fetch resolves
  (success, failure or timeout of the client) by writing its outcome and calling
  \<^verbatim>\<open>wg.Done()\<close>; \<^verbatim>\<open>wg.Wait()\<close> returns only when the counter is zero.
\<close>

datatype place = Spawning nat | Waiting | TimerWait

record Poller =
  tick :: nat
  place :: place
  wg :: nat
  running :: "(nat \<times> nat) set"

definition poller_start :: Poller where
  "poller_start = \<lparr>tick = 0, place = Spawning 0, wg = 0, running = {}\<rparr>"

inductive poll_step :: "nat \<Rightarrow> Poller \<Rightarrow> Poller \<Rightarrow> bool" for n :: nat where
  launch:
    "place s = Spawning i \<Longrightarrow> i < n \<Longrightarrow>
     poll_step n s (s\<lparr>place := Spawning (Suc i), wg := wg s + 1,
                       running := insert (tick s, i) (running s)\<rparr>)"
| loop_end:
    "place s = Spawning i \<Longrightarrow> \<not> i < n \<Longrightarrow> poll_step n s (s\<lparr>place := Waiting\<rparr>)"
| resolve:
    "w \<in> running s \<Longrightarrow> poll_step n s (s\<lparr>wg := wg s - 1, running := running s - {w}\<rparr>)"
| wait_returns:
    "place s = Waiting \<Longrightarrow> wg s = 0 \<Longrightarrow> poll_step n s (s\<lparr>place := TimerWait\<rparr>)"
| ticker_fires:
    "place s = TimerWait \<Longrightarrow> poll_step n s (s\<lparr>tick := tick s + 1, place := Spawning 0\<rparr>)"

inductive reachable :: "nat \<Rightarrow> Poller \<Rightarrow> bool" for n :: nat where
  start: "reachable n poller_start"
| step: "reachable n s \<Longrightarrow> poll_step n s s' \<Longrightarrow> reachable n s'"

section \<open>The single-host monitor with process ranking (second main.go)\<close>

record Process2 =
  Pid :: string
  ProcessName :: string
  UsedMemory :: string
  Username :: string

record GPU2 =
  gID :: string
  gProductName :: string
  gMemoryTotal :: string
  gMemoryUsed :: string
  gUtilization :: string
  gPowerDraw :: string
  gProcesses :: "Process2 list"

datatype panic = IndexOutOfRange

datatype response = HTTPError int string | JSONBody "GPU2 list"

text \<open>
  The comparison function handed to \<^verbatim>\<open>sort.Slice\<close>, on the two elements it is asked to
  compare: element \<open>k\<close> is read first.  Indexing the empty result of \<open>Fields\<close> panics.
\<close>

definition first_field :: "string \<Rightarrow> panic + string" where
  "first_field s = (case Fields s of [] \<Rightarrow> Inl IndexOutOfRange | f # fs \<Rightarrow> Inr f)"

definition less_mem :: "Process2 \<Rightarrow> Process2 \<Rightarrow> panic + bool" where
  "less_mem pk pl =
     (case first_field (UsedMemory pk) of
        Inl e \<Rightarrow> Inl e
      | Inr fk \<Rightarrow>
          (case first_field (UsedMemory pl) of
             Inl e \<Rightarrow> Inl e
           | Inr fl \<Rightarrow> Inr (fst (Atoi fl) < fst (Atoi fk))))"

text \<open>
  \<^verbatim>\<open>insertionSort_func\<close> of package sort, on the whole slice:
  \<^verbatim>\<open>for i := 1; i < n; i++ { for j := i; j > 0 && less(j, j-1); j-- { swap(j, j-1) } }\<close>.
  A panic of the comparison ends the sort.
\<close>

definition swap :: "nat \<Rightarrow> nat \<Rightarrow> 'a list \<Rightarrow> 'a list" where
  "swap i j xs = xs[i := xs ! j, j := xs ! i]"

fun insert_loop :: "('a \<Rightarrow> 'a \<Rightarrow> panic + bool) \<Rightarrow> nat \<Rightarrow> 'a list \<Rightarrow> panic + 'a list" where
  "insert_loop lt 0 xs = Inr xs"
| "insert_loop lt (Suc j) xs =
     (case lt (xs ! Suc j) (xs ! j) of
        Inl e \<Rightarrow> Inl e
      | Inr b \<Rightarrow> if b then insert_loop lt j (swap (Suc j) j xs) else Inr xs)"

text \<open>The outer loop from index \<open>i\<close>, with \<open>k\<close> iterations left.\<close>

fun sort_loop :: "('a \<Rightarrow> 'a \<Rightarrow> panic + bool) \<Rightarrow> nat \<Rightarrow> nat \<Rightarrow> 'a list \<Rightarrow> panic + 'a list" where
  "sort_loop lt i 0 xs = Inr xs"
| "sort_loop lt i (Suc k) xs =
     (case insert_loop lt i xs of Inl e \<Rightarrow> Inl e | Inr ys \<Rightarrow> sort_loop lt (Suc i) k ys)"

definition insertionSort :: "('a \<Rightarrow> 'a \<Rightarrow> panic + bool) \<Rightarrow> 'a list \<Rightarrow> panic + 'a list" where
  "insertionSort lt xs = sort_loop lt 1 (length xs - 1) xs"

text \<open>
  \<^verbatim>\<open>sort.Slice\<close>.  The program needs Go 1.16 or later, and package sort changed with
  Go 1.19.  Since 1.19 a slice of at most 12 elements is sorted by
  \<^verbatim>\<open>insertionSort_func\<close> alone.  Before 1.19 such a slice first goes through one pass
  with gap 6, \<^verbatim>\<open>for i := 6; i < n; i++ { if less(i, i-6) { swap(i, i-6) } }\<close>, and
  then through \<^verbatim>\<open>insertionSort_func\<close>.  What happens to a longer slice (quicksort
  before 1.19, pattern-defeating quicksort since) is documented as not stable and is
  the parameter \<open>lib\<close>.
\<close>

datatype go_release = Before_1_19 | Since_1_19

fun gap_loop :: "('a \<Rightarrow> 'a \<Rightarrow> panic + bool) \<Rightarrow> nat \<Rightarrow> nat \<Rightarrow> 'a list \<Rightarrow> panic + 'a list" where
  "gap_loop lt i 0 xs = Inr xs"
| "gap_loop lt i (Suc k) xs =
     (case lt (xs ! i) (xs ! (i - 6)) of
        Inl e \<Rightarrow> Inl e
      | Inr b \<Rightarrow> gap_loop lt (Suc i) k (if b then swap i (i - 6) xs else xs))"

definition gap_pass :: "('a \<Rightarrow> 'a \<Rightarrow> panic + bool) \<Rightarrow> 'a list \<Rightarrow> panic + 'a list" where
  "gap_pass lt xs = gap_loop lt 6 (length xs - 6) xs"

definition sort_Slice ::
  "go_release \<Rightarrow> (('a \<Rightarrow> 'a \<Rightarrow> panic + bool) \<Rightarrow> 'a list \<Rightarrow> panic + 'a list) \<Rightarrow>
   ('a \<Rightarrow> 'a \<Rightarrow> panic + bool) \<Rightarrow> 'a list \<Rightarrow> panic + 'a list"
where
  "sort_Slice rel lib lt xs =
     (if 12 < length xs then lib lt xs
      else case rel of
             Since_1_19 \<Rightarrow> insertionSort lt xs
           | Before_1_19 \<Rightarrow>
               (case gap_pass lt xs of Inl e \<Rightarrow> Inl e | Inr ys \<Rightarrow> insertionSort lt ys))"

text \<open>
  The body of the loop over the devices in \<^verbatim>\<open>gpuInfoHandler\<close>: the owner of every
  process is looked up (\<open>ps\<close> is \<^verbatim>\<open>getUsernameFromPid\<close>, the answer of the operating
  system for a pid), the processes are sorted, and at most two are kept.
\<close>

definition rank_processes ::
  "go_release \<Rightarrow> ((Process2 \<Rightarrow> Process2 \<Rightarrow> panic + bool) \<Rightarrow> Process2 list \<Rightarrow> panic + Process2 list) \<Rightarrow>
   (string \<Rightarrow> string) \<Rightarrow> GPU2 \<Rightarrow> panic + GPU2"
where
  "rank_processes rel lib ps gpu =
     (let procs = map (\<lambda>proc. proc\<lparr>Username := ps (Pid proc)\<rparr>) (gProcesses gpu)
      in case sort_Slice rel lib less_mem procs of
           Inl e \<Rightarrow> Inl e
         | Inr ranked \<Rightarrow>
             Inr (gpu\<lparr>gProcesses := (if 2 < length ranked then take 2 ranked else ranked)\<rparr>))"

fun rank_all ::
  "go_release \<Rightarrow> ((Process2 \<Rightarrow> Process2 \<Rightarrow> panic + bool) \<Rightarrow> Process2 list \<Rightarrow> panic + Process2 list) \<Rightarrow>
   (string \<Rightarrow> string) \<Rightarrow> GPU2 list \<Rightarrow> panic + GPU2 list"
where
  "rank_all rel lib ps [] = Inr []"
| "rank_all rel lib ps (gpu # gpus) =
     (case rank_processes rel lib ps gpu of
        Inl e \<Rightarrow> Inl e
      | Inr g \<Rightarrow> (case rank_all rel lib ps gpus of Inl e \<Rightarrow> Inl e | Inr gs \<Rightarrow> Inr (g # gs)))"

text \<open>
  \<^verbatim>\<open>gpuInfoHandler\<close>: \<open>info\<close> is what \<^verbatim>\<open>getGPUInfo\<close> returned (the text of its error, or
  the devices).  The result is the panic that ends the handler, or its response.
\<close>

definition gpuInfoHandler ::
  "go_release \<Rightarrow> ((Process2 \<Rightarrow> Process2 \<Rightarrow> panic + bool) \<Rightarrow> Process2 list \<Rightarrow> panic + Process2 list) \<Rightarrow>
   (string \<Rightarrow> string) \<Rightarrow> string + GPU2 list \<Rightarrow> panic + response"
where
  "gpuInfoHandler rel lib ps info =
     (case info of
        Inl err \<Rightarrow> Inr (HTTPError 500 (''Error getting GPU info: '' @ err))
      | Inr gpus \<Rightarrow>
          (case rank_all rel lib ps gpus of Inl e \<Rightarrow> Inl e | Inr gs \<Rightarrow> Inr (JSONBody gs)))"

section \<open>Auxiliary notions for the statements\<close>

text \<open>
  The text that \<open>parseMemoryValue\<close> hands to \<open>ParseFloat\<close>, for a value that is already
  trimmed: it depends on the branch taken; \<open>None\<close> when no branch is.
\<close>

definition memory_number :: "string \<Rightarrow> string option" where
  "memory_number value =
     (if HasSuffix value ''MiB'' then Some (TrimSuffix value '' MiB'')
      else if HasSuffix value ''GiB'' then Some (TrimSuffix value '' GiB'')
      else if HasSuffix value ''KiB'' then Some (TrimSuffix value '' KiB'')
      else if HasSuffix value ''B'' \<and> \<not> Contains value ''iB'' then Some (TrimSuffix value ''B'')
      else None)"

text \<open>No number: there is no such text, or \<open>ParseFloat\<close> reports a syntax error for it.\<close>

definition not_a_number :: "string option \<Rightarrow> bool" where
  "not_a_number num = (case num of None \<Rightarrow> True | Some s \<Rightarrow> snd (ParseFloat s) = Some ErrSyntax)"

text \<open>A device as nvidia-smi reports it, with the given used and total memory.\<close>

definition example_gpu :: "string \<Rightarrow> string \<Rightarrow> GPU" where
  "example_gpu usedStr totalStr =
     \<lparr>xID = ''00000000:01:00.0'', xProductName = ''NVIDIA A100'', xFBTotal = totalStr,
      xFBUsed = usedStr, xFBFree = ''0 MiB'', xGPUUtil = ''35 %'', xGPUTemp = ''45 C'',
      xPowerDraw = ''250.00 W'', xPowerLimit = ''400.00 W'', xProcesses = []\<rparr>"

text \<open>An output with two devices, and an \<open>xml.Unmarshal\<close> for concrete runs.\<close>

definition example_smi :: SMIOutput where
  "example_smi =
     \<lparr>AttachedGPUs = 2,
      GPUs = [(example_gpu ''300 MiB'' ''40960 MiB'')\<lparr>xID := ''00000000:81:00.0''\<rparr>,
              example_gpu ''2 MiB'' ''40960 MiB'']\<rparr>"

definition example_unmarshal :: "string \<Rightarrow> string + SMIOutput" where
  "example_unmarshal out =
     (if out = ''<nvidia_smi_log/>'' then Inr \<lparr>AttachedGPUs = 0, GPUs = []\<rparr> else Inr example_smi)"

text \<open>
  The three shapes a record of the registry may have: never fetched, online with
  telemetry and no error, offline with an error and no telemetry.
\<close>

definition consistent :: "NodeStatus \<Rightarrow> bool" where
  "consistent st \<longleftrightarrow>
     (Status st = ''unknown'' \<and> Data st = None \<and> Error st = []) \<or>
     (Status st = ''online'' \<and> Data st \<noteq> None \<and> Error st = []) \<or>
     (Status st = ''offline'' \<and> Data st = None \<and> Error st \<noteq> [])"

definition is_unknown :: "NodeStatus \<Rightarrow> bool" where
  "is_unknown st \<longleftrightarrow> Status st = ''unknown'' \<and> Data st = None \<and> Error st = []"

text \<open>Every name of the map points into the heap, at a record with the property \<open>P\<close>.\<close>

definition registry_all :: "(NodeStatus \<Rightarrow> bool) \<Rightarrow> Aggregator \<Rightarrow> bool" where
  "registry_all P a \<longleftrightarrow> (\<forall>name p. nodes a name = Some p \<longrightarrow> p < length (heap a) \<and> P (heap a ! p))"

text \<open>A configuration with one node, and a telemetry record, for concrete runs.\<close>

definition example_node :: NodeConfig where
  "example_node = \<lparr>Name = ''gpu1'', Host = ''192.168.1.101'', Port = 8081, Alias = ''lab''\<rparr>"

definition example_cfg :: AggregatorConfig where
  "example_cfg = \<lparr>Nodes = [example_node], AggregatorPort = 8080\<rparr>"

definition example_info :: NodeInfo where
  "example_info = \<lparr>NodeName = ''gpu1'', Timestamp = 4, NodeGPUs = []\<rparr>"

text \<open>
  The invariant of the polling loop: the counter of the wait group is the number of
  unresolved fetches, all of them were launched by the current tick for a configured
  node, those launched so far are the nodes before the position of the loop, and
  none is left when the goroutine waits for the ticker.
\<close>

definition poll_inv :: "nat \<Rightarrow> Poller \<Rightarrow> bool" where
  "poll_inv n s \<longleftrightarrow>
     finite (running s) \<and> wg s = card (running s) \<and>
     (\<forall>w\<in>running s. fst w = tick s \<and> snd w < n) \<and>
     (case place s of
        Spawning i \<Rightarrow> i \<le> n \<and> (\<forall>w\<in>running s. snd w < i)
      | Waiting \<Rightarrow> True
      | TimerWait \<Rightarrow> running s = {})"

text \<open>
  The format in which nvidia-smi reports the memory of a process: decimal digits (a
  number below \<open>2 ^ 63\<close>), a space and \<open>MiB\<close>; and the number reported.
\<close>

definition reported_mib :: "Process2 \<Rightarrow> int" where
  "reported_mib p = digits_val (takeWhile is_digit (UsedMemory p))"

definition mib_format :: "string \<Rightarrow> bool" where
  "mib_format s \<longleftrightarrow>
     takeWhile is_digit s \<noteq> [] \<and> digits_val (takeWhile is_digit s) < 2 ^ 63 \<and>
     s = takeWhile is_digit s @ '' MiB''"

text \<open>A process with its owner filled in, as the first loop of the handler leaves it.\<close>

definition with_owner :: "(string \<Rightarrow> string) \<Rightarrow> Process2 \<Rightarrow> Process2" where
  "with_owner ps proc = proc\<lparr>Username := ps (Pid proc)\<rparr>"

text \<open>
  What the claim asks for one device: the processes with their owners, sorted by the
  reported memory, largest first, by the stable sort \<open>sort_key\<close> of the library (equal
  keys keep their order), cut to the first two.
\<close>

definition ranked :: "(string \<Rightarrow> string) \<Rightarrow> GPU2 \<Rightarrow> GPU2" where
  "ranked ps gpu =
     gpu\<lparr>gProcesses :=
           take 2 (sort_key (\<lambda>p. - reported_mib p) (map (with_owner ps) (gProcesses gpu)))\<rparr>"

text \<open>An owner lookup, processes and devices for concrete runs.\<close>

definition ps_root :: "string \<Rightarrow> string" where
  "ps_root pid = ''root''"

definition example_proc :: "string \<Rightarrow> string \<Rightarrow> Process2" where
  "example_proc pid mem = \<lparr>Pid = pid, ProcessName = ''python'', UsedMemory = mem, Username = []\<rparr>"

definition example_gpu2 :: "Process2 list \<Rightarrow> GPU2" where
  "example_gpu2 procs =
     \<lparr>gID = ''00000000:01:00.0'', gProductName = ''NVIDIA A100'', gMemoryTotal = ''40960 MiB'',
      gMemoryUsed = ''4500 MiB'', gUtilization = ''35 %'', gPowerDraw = ''250.00 W'',
      gProcesses = procs\<rparr>"

definition seven_processes :: "Process2 list" where
  "seven_processes =
     [example_proc ''1'' ''100 MiB'', example_proc ''2'' ''100 MiB'', example_proc ''3'' ''10 MiB'',
      example_proc ''4'' ''10 MiB'', example_proc ''5'' ''10 MiB'', example_proc ''6'' ''10 MiB'',
      example_proc ''7'' ''200 MiB'']"

text \<open>
  Where the inner loop of the insertion sort leaves \<open>x\<close> when the elements before it are
  \<open>A\<close>: behind the last element that it does not have to pass.
\<close>

definition place_right :: "('a \<Rightarrow> int) \<Rightarrow> 'a \<Rightarrow> 'a list \<Rightarrow> 'a list" where
  "place_right f x A =
     rev (dropWhile (\<lambda>y. f x < f y) (rev A)) @ [x] @ rev (takeWhile (\<lambda>y. f x < f y) (rev A))"

section \<open>Small integers are exact in float64\<close>

lemma bitlen_le_53: assumes "0 < k" "k < 2 ^ 53" shows "1 \<le> bitlen k \<and> bitlen k \<le> 53"
proof -
  have b: "2 ^ nat (bitlen k - 1) \<le> k \<and> k < 2 ^ nat (bitlen k)"
    using bitlen_bounds[OF assms(1)] .
  have "bitlen k \<noteq> 0" using assms(1) by (simp add: bitlen_eq_zero_iff)
  then have ge: "1 \<le> bitlen k" using bitlen_nonneg[of k] by linarith
  have "(2::int) ^ nat (bitlen k - 1) < 2 ^ 53" using b assms(2) by linarith
  then have "nat (bitlen k - 1) < 53"
    using power_less_imp_less_exp[of "2::int" "nat (bitlen k - 1)" 53] by simp
  then show ?thesis using ge by linarith
qed

lemma rne_div_exact: "0 < q \<Longrightarrow> rne_div (n * q) q = n"
  by (simp add: rne_div_def Let_def)

lemma round_ratio_exact:
  assumes "0 < k" "k < 2 ^ 53"
  shows "round_ratio neg (k * 2 ^ j) (2 ^ j) =
         Fin (if neg then - (k * 2 ^ nat (53 - bitlen k)) else k * 2 ^ nat (53 - bitlen k)) (bitlen k - 53)"
proof -
  have bl: "1 \<le> bitlen k" "bitlen k \<le> 53" using bitlen_le_53[OF assms] by auto
  have b: "2 ^ nat (bitlen k - 1) \<le> k" "k < 2 ^ nat (bitlen k)"
    using bitlen_bounds[OF assms(1)] by auto
  have blp: "bitlen (k * 2 ^ j) = bitlen k + int j" using assms(1) by simp
  have blq: "bitlen (2 ^ j) = 1 + int j" using bitlen_pow2[of 1 j] by (simp add: bitlen_def compute_floorlog)
  have il: "ilog2 (k * 2 ^ j) (2 ^ j) = bitlen k - 1"
  proof -
    have "(2::int) ^ j * 2 ^ nat (bitlen k - 1) \<le> k * 2 ^ j"
      using b(1) by (simp add: mult.commute)
    moreover have "nat (- (bitlen k - 1)) = 0" using bl by simp
    ultimately show ?thesis
      unfolding ilog2_def Let_def blp blq by simp
  qed
  define s where "s = nat (53 - bitlen k)"
  have s1: "52 - max (bitlen k - 1) (- 1022) = int s" using bl by (simp add: s_def)
  have n: "rne_div (k * 2 ^ j * 2 ^ s) (2 ^ j) = k * 2 ^ s"
    using rne_div_exact[of "2 ^ j" "k * 2 ^ s"] by (simp add: mult.assoc mult.left_commute mult.commute)
  have "k * 2 ^ s < 2 ^ nat (bitlen k) * 2 ^ s" using b(2) by simp
  also have "\<dots> = 2 ^ (nat (bitlen k) + s)" by (simp add: power_add)
  also have "nat (bitlen k) + s = 53" using bl by (simp add: s_def)
  finally have small: "k * 2 ^ s < 2 ^ 53" .
  have "(2::int) ^ 53 < 2 ^ 1024" by simp
  then have nov: "\<not> (2::int) ^ 1024 \<le> k * 2 ^ s" using small by linarith
  have kz: "k * 2 ^ j \<noteq> 0" using assms(1) by simp
  have e: "- int s = bitlen k - 53" using bl by (simp add: s_def)
  show ?thesis
    unfolding round_ratio_def il Let_def s1 using kz n nov e
    by (simp add: s_def[symmetric])
qed


lemma f64_of_int_exact: "0 \<le> k \<Longrightarrow> k < 2 ^ 53 \<Longrightarrow> f64_of_int k = exact k"
  using round_ratio_exact[of k False 0]
  by (cases "k = 0") (simp_all add: f64_of_int_def exact_def round_ratio_def)

lemma f64_mul_exact:
  assumes "0 \<le> a" "0 \<le> b" "a * b < 2 ^ 53"
  shows "f64_mul (exact a) (exact b) = exact (a * b)"
proof (cases "a = 0 \<or> b = 0")
  case True
  then show ?thesis by (auto simp: exact_def round_ratio_def)
next
  case False
  then have pos: "0 < a" "0 < b" using assms by auto
  then have ab: "0 < a * b" by simp
  have "a * 1 \<le> a * b" using pos by (intro mult_left_mono) auto
  then have a53: "a < 2 ^ 53" using assms(3) by linarith
  have "1 * b \<le> a * b" using pos by (intro mult_right_mono) auto
  then have b53: "b < 2 ^ 53" using assms(3) by linarith
  have bla: "1 \<le> bitlen a" "bitlen a \<le> 53" using bitlen_le_53[OF pos(1) a53] by auto
  have blb: "1 \<le> bitlen b" "bitlen b \<le> 53" using bitlen_le_53[OF pos(2) b53] by auto
  define sa where "sa = nat (53 - bitlen a)"
  define sb where "sb = nat (53 - bitlen b)"
  have e: "bitlen a - 53 + (bitlen b - 53) = - int (sa + sb)"
    using bla blb by (simp add: sa_def sb_def)
  have m: "a * 2 ^ sa * (b * 2 ^ sb) = a * b * 2 ^ (sa + sb)"
    by (simp add: power_add mult_ac)
  have "0 < a * b * 2 ^ (sa + sb)" using ab by simp
  then have nn: "\<not> a * b * 2 ^ (sa + sb) < 0" by linarith
  have abs: "\<bar>a * b * 2 ^ (sa + sb)\<bar> = a * b * 2 ^ (sa + sb)"
    using \<open>0 < a * b * 2 ^ (sa + sb)\<close> by linarith
  have "f64_mul (exact a) (exact b) = round_ratio False (a * b * 2 ^ (sa + sb)) (2 ^ (sa + sb))"
    using False
    by (simp add: exact_def sa_def[symmetric] sb_def[symmetric] e m nn abs del: of_nat_add)
  also have "\<dots> = exact (a * b)"
    using round_ratio_exact[OF ab assms(3), of False "sa + sb"] False by (simp add: exact_def)
  finally show ?thesis .
qed

lemma trunc_exact: "0 \<le> k \<Longrightarrow> k < 2 ^ 53 \<Longrightarrow> (case exact k of Fin m e \<Rightarrow> trunc_f64 m e | _ \<Rightarrow> - 1) = k"
proof (cases "k = 0")
  case True then show ?thesis by (simp add: exact_def trunc_f64_def)
next
  case False
  assume "0 \<le> k" "k < 2 ^ 53"
  then have pos: "0 < k" using False by simp
  have bl: "1 \<le> bitlen k" "bitlen k \<le> 53" using bitlen_le_53[OF pos \<open>k < 2 ^ 53\<close>] by auto
  have "nat (bitlen k - 53) = 0" "nat (- (bitlen k - 53)) = nat (53 - bitlen k)" using bl by auto
  then show ?thesis using False pos by (simp add: exact_def trunc_f64_def)
qed

lemma F64toUint64_exact:
  assumes "0 \<le> k" "k < 2 ^ 53"
  shows "F64toUint64 impl (exact k) = word_of_int k"
proof -
  have "(2::int) ^ 53 < 2 ^ 64" by simp
  then have k64: "k < 2 ^ 64" using assms(2) by linarith
  show ?thesis
    using trunc_exact[OF assms] assms(1) k64
    by (auto simp: F64toUint64_def exact_def split: if_splits)
qed

lemma valof_exact:
  assumes "0 \<le> k" "k < 2 ^ 53"
  shows "valof (exact k) = Some (of_int k)"
proof (cases "k = 0")
  case True then show ?thesis by (simp add: exact_def valof_def)
next
  case False
  then have pos: "0 < k" using assms by simp
  have bl: "1 \<le> bitlen k" "bitlen k \<le> 53" using bitlen_le_53[OF pos assms(2)] by auto
  define s where "s = nat (53 - bitlen k)"
  have e: "bitlen k - 53 = - int s" using bl by (simp add: s_def)
  show ?thesis using False
    by (simp add: exact_def valof_def s_def[symmetric] e power_int_minus field_simps)
qed

section \<open>Parsing a string of decimal digits\<close>

lemma digit_val_bounds: "is_digit c \<Longrightarrow> 0 \<le> digit_val c \<and> digit_val c \<le> 9"
  unfolding is_digit_def list.set digit_val_def by (elim insertE emptyE; simp)

lemma digit_not_special:
  "is_digit c \<Longrightarrow> c \<noteq> CHR ''_'' \<and> c \<noteq> CHR ''.'' \<and> c \<noteq> CHR ''+'' \<and> c \<noteq> CHR ''-'' \<and>
     c \<noteq> CHR ''i'' \<and> c \<noteq> CHR ''I'' \<and> c \<noteq> CHR ''n'' \<and> c \<noteq> CHR ''N'' \<and> to_lower c \<noteq> CHR ''x''"
  unfolding is_digit_def list.set by (elim insertE emptyE; simp add: to_lower_def)

lemma space_width_digit: "is_digit c \<Longrightarrow> space_width space_seqs (c # cs) = 0"
  unfolding is_digit_def list.set by (elim insertE emptyE; simp add: space_width_def space_seqs_def is_prefix_def)

lemma foldl_digits_nonneg:
  "list_all is_digit ds \<Longrightarrow> 0 \<le> n \<Longrightarrow> 0 \<le> foldl (\<lambda>n c. n * 10 + digit_val c) n ds"
proof (induction ds arbitrary: n)
  case Nil
  then show ?case by simp
next
  case (Cons c ds)
  then have "0 \<le> digit_val c" using digit_val_bounds[of c] by simp
  then have "0 \<le> n * 10 + digit_val c" using Cons.prems(2) by simp
  then show ?case using Cons.IH[of "n * 10 + digit_val c"] Cons.prems(1) by simp
qed

lemma digits_val_nonneg: "list_all is_digit ds \<Longrightarrow> 0 \<le> digits_val ds"
  by (simp add: digits_val_def foldl_digits_nonneg)

lemma mant_loop_digits:
  "list_all is_digit ds \<Longrightarrow> \<not> sawdot st \<Longrightarrow>
   mant_loop False st ds =
     (st\<lparr>sawdigits := sawdigits st \<or> ds \<noteq> [],
         mant := foldl (\<lambda>n c. n * 10 + digit_val c) (mant st) ds\<rparr>, [])"
proof (induction ds arbitrary: st)
  case Nil
  then show ?case by simp
next
  case (Cons c ds)
  then have c: "is_digit c" and ds: "list_all is_digit ds" by auto
  have ns: "c \<noteq> CHR ''_''" "c \<noteq> CHR ''.''" using digit_not_special[OF c] by auto
  have nd: "\<not> sawdot (push_digit 10 (digit_val c) st)"
    using Cons.prems(2) by (simp add: push_digit_def)
  show ?case
    using Cons.IH[OF ds nd] c ns Cons.prems(2)
    by (simp add: push_digit_def)
qed

lemma special_digit: "is_digit c \<Longrightarrow> special (c # cs) = None"
  using digit_not_special[of c] by (simp add: special_def)

lemma readFloat_digits:
  assumes "ds \<noteq> []" "list_all is_digit ds"
  shows "readFloat ds = Some (False, False, digits_val ds, 0, 0, length ds)"
proof -
  obtain c cs where ds: "ds = c # cs" using assms(1) by (cases ds) auto
  then have c: "is_digit c" and cs: "list_all is_digit cs" using assms(2) by auto
  have nc: "c \<noteq> CHR ''+''" "c \<noteq> CHR ''-''" using digit_not_special[OF c] by auto
  have nohex: "(2 < length (c # cs) \<and> (c # cs) ! 0 = CHR ''0'' \<and> to_lower ((c # cs) ! 1) = CHR ''x'') = False"
  proof (cases cs)
    case Nil then show ?thesis by simp
  next
    case (Cons d rest)
    then have "is_digit d" using cs by simp
    then show ?thesis using digit_not_special[of d] by (simp add: Cons)
  qed
  have ml: "mant_loop False \<lparr>sawdot = False, sawdigits = False, mant = 0, fracd = 0, underscores = False\<rparr> (c # cs)
        = (\<lparr>sawdot = False, sawdigits = True, mant = digits_val (c # cs), fracd = 0, underscores = False\<rparr>, [])"
    using mant_loop_digits[OF assms(2), of "\<lparr>sawdot = False, sawdigits = False, mant = 0, fracd = 0, underscores = False\<rparr>"]
    by (simp add: digits_val_def ds del: mant_loop.simps foldl_Cons)
  have s1: "(if c = CHR ''+'' \<or> c = CHR ''-'' then cs else c # cs) = c # cs"
    using nc by simp
  show ?thesis
    unfolding ds readFloat_def list.case Let_def s1 nohex if_False ml prod.case
    using nc by (simp add: read_exp_def)
qed


lemma ParseFloat_digits:
  assumes "ds \<noteq> []" "list_all is_digit ds" "digits_val ds < 2 ^ 53"
  shows "ParseFloat ds = (exact (digits_val ds), None)"
proof -
  obtain c cs where ds: "ds = c # cs" using assms(1) by (cases ds) auto
  then have c: "is_digit c" using assms(2) by auto
  have sp: "special ds = None" using special_digit[OF c] by (simp add: ds)
  have nn: "0 \<le> digits_val ds" using digits_val_nonneg[OF assms(2)] .
  have fp: "float_of_parts False False (digits_val ds) 0 0 = exact (digits_val ds)"
    using f64_of_int_exact[OF nn assms(3)] by (simp add: float_of_parts_def f64_of_int_def)
  have ni: "\<not> is_inf (exact (digits_val ds))" by (simp add: exact_def is_inf_def)
  show ?thesis
    by (simp add: ParseFloat_def sp readFloat_digits[OF assms(1,2)] fp ni)
qed

section \<open>Numbers followed by a unit\<close>

lemma HasSuffix_append [simp]: "HasSuffix (xs @ suf) suf"
  by (simp add: HasSuffix_def)

lemma TrimSuffix_append [simp]: "TrimSuffix (xs @ suf) suf = xs"
  by (simp add: TrimSuffix_def)

lemma HasSuffix_same_length: "length t = length suf \<Longrightarrow> HasSuffix (xs @ t) suf \<longleftrightarrow> t = suf"
  by (auto simp: HasSuffix_def)

lemma trim_left_id: "space_width seqs s = 0 \<Longrightarrow> trim_left seqs s = s"
  by (cases s) simp_all

lemma TrimSpace_id:
  assumes "space_width space_seqs s = 0" "space_width (map rev space_seqs) (rev s) = 0"
  shows "TrimSpace s = s"
  using assms by (simp add: TrimSpace_def TrimLeftSpace_def TrimRightSpace_def trim_left_id)

lemma space_width_rev_unit:
  "l \<in> {CHR ''B'', CHR ''W'', CHR ''%''} \<Longrightarrow> space_width (map rev space_seqs) (l # xs) = 0"
  by (elim insertE emptyE; simp add: space_width_def space_seqs_def is_prefix_def)

lemma TrimSpace_number_unit:
  assumes "ds \<noteq> []" "list_all is_digit ds" "l \<in> {CHR ''B'', CHR ''W'', CHR ''%''}"
  shows "TrimSpace (ds @ u @ [l]) = ds @ u @ [l]"
proof -
  obtain c cs where ds: "ds = c # cs" using assms(1) by (cases ds) auto
  then have c: "is_digit c" using assms(2) by auto
  have 1: "space_width space_seqs (ds @ u @ [l]) = 0"
    using space_width_digit[OF c] by (simp add: ds)
  have 2: "space_width (map rev space_seqs) (rev (ds @ u @ [l])) = 0"
    using space_width_rev_unit[OF assms(3)] by simp
  show ?thesis using TrimSpace_id[OF 1 2] .
qed

lemma f64_1024: "f64_of_int 1024 = exact 1024" by (rule f64_of_int_exact) simp_all
lemma f64_1000: "f64_of_int 1000 = exact 1000" by (rule f64_of_int_exact) simp_all

lemma scale_exact:
  assumes "0 \<le> n" "0 \<le> c" "c < 2 ^ 53" "n * c < 2 ^ 53"
  shows "f64_mul (exact n) (f64_of_int c) = exact (n * c)"
  using f64_mul_exact[OF assms(1,2,4)] f64_of_int_exact[OF assms(2,3)] by simp

lemma parseMemoryValue_MiB:
  assumes "ds \<noteq> []" "list_all is_digit ds" "digits_val ds * 2 ^ 20 < 2 ^ 53"
  shows "parseMemoryValue impl (ds @ '' MiB'') = word_of_int (digits_val ds * 2 ^ 20)"
proof -
  let ?n = "digits_val ds"
  have nn: "0 \<le> ?n" using digits_val_nonneg[OF assms(2)] .
  have n10: "?n * 1024 < 2 ^ 53" and n53: "?n < 2 ^ 53" using assms(3) nn by simp_all
  have ts: "TrimSpace (ds @ '' MiB'') = ds @ '' MiB''"
    using TrimSpace_number_unit[OF assms(1,2), of "CHR ''B''" "'' Mi''"] by simp
  have hs: "HasSuffix (ds @ '' MiB'') ''MiB''"
    using HasSuffix_append[of "ds @ '' ''" "''MiB''"] by simp
  have pf: "ParseFloat ds = (exact ?n, None)" using ParseFloat_digits[OF assms(1,2) n53] .
  have m1: "f64_mul (exact ?n) (f64_of_int 1024) = exact (?n * 1024)"
    using scale_exact[OF nn _ _ n10] by simp
  have m2: "f64_mul (exact (?n * 1024)) (f64_of_int 1024) = exact (?n * 1024 * 1024)"
    using scale_exact[of "?n * 1024" 1024] nn assms(3) by simp
  have c: "F64toUint64 impl (exact (?n * 1024 * 1024)) = word_of_int (?n * 1024 * 1024)"
    using F64toUint64_exact[of "?n * 1024 * 1024" impl] nn assms(3) by simp
  have tr: "TrimSuffix (ds @ '' MiB'') '' MiB'' = ds" by simp
  have "parseMemoryValue impl (ds @ '' MiB'') = word_of_int (?n * 1024 * 1024)"
    by (simp only: parseMemoryValue_def Let_def ts hs if_True tr pf fst_conv m1 m2 c)
  then show ?thesis by simp
qed

lemma parseMemoryValue_KiB:
  assumes "ds \<noteq> []" "list_all is_digit ds" "digits_val ds * 2 ^ 10 < 2 ^ 53"
  shows "parseMemoryValue impl (ds @ '' KiB'') = word_of_int (digits_val ds * 2 ^ 10)"
proof -
  let ?n = "digits_val ds"
  have nn: "0 \<le> ?n" using digits_val_nonneg[OF assms(2)] .
  have n53: "?n < 2 ^ 53" using assms(3) nn by simp
  have ts: "TrimSpace (ds @ '' KiB'') = ds @ '' KiB''"
    using TrimSpace_number_unit[OF assms(1,2), of "CHR ''B''" "'' Ki''"] by simp
  have h1: "HasSuffix (ds @ '' KiB'') ''MiB'' = False"
    using HasSuffix_same_length[of "''KiB''" "''MiB''" "ds @ '' ''"] by simp
  have h2: "HasSuffix (ds @ '' KiB'') ''GiB'' = False"
    using HasSuffix_same_length[of "''KiB''" "''GiB''" "ds @ '' ''"] by simp
  have h3: "HasSuffix (ds @ '' KiB'') ''KiB'' = True"
    using HasSuffix_append[of "ds @ '' ''" "''KiB''"] by simp
  have pf: "ParseFloat ds = (exact ?n, None)" using ParseFloat_digits[OF assms(1,2) n53] .
  have m1: "f64_mul (exact ?n) (f64_of_int 1024) = exact (?n * 1024)"
    using scale_exact[of ?n 1024] nn assms(3) by simp
  have c: "F64toUint64 impl (exact (?n * 1024)) = word_of_int (?n * 1024)"
    using F64toUint64_exact[of "?n * 1024" impl] nn assms(3) by simp
  have tr: "TrimSuffix (ds @ '' KiB'') '' KiB'' = ds" by simp
  have "parseMemoryValue impl (ds @ '' KiB'') = word_of_int (?n * 1024)"
    by (simp only: parseMemoryValue_def Let_def ts h1 h2 h3 if_True if_False tr pf fst_conv m1 c)
  then show ?thesis by simp
qed

lemma parseMemoryValue_GiB:
  assumes "ds \<noteq> []" "list_all is_digit ds" "digits_val ds * 2 ^ 30 < 2 ^ 53"
  shows "parseMemoryValue impl (ds @ '' GiB'') = word_of_int (digits_val ds * 2 ^ 30)"
proof -
  let ?n = "digits_val ds"
  have nn: "0 \<le> ?n" using digits_val_nonneg[OF assms(2)] .
  have n53: "?n < 2 ^ 53" using assms(3) nn by simp
  have ts: "TrimSpace (ds @ '' GiB'') = ds @ '' GiB''"
    using TrimSpace_number_unit[OF assms(1,2), of "CHR ''B''" "'' Gi''"] by simp
  have h1: "HasSuffix (ds @ '' GiB'') ''MiB'' = False"
    using HasSuffix_same_length[of "''GiB''" "''MiB''" "ds @ '' ''"] by simp
  have h2: "HasSuffix (ds @ '' GiB'') ''GiB'' = True"
    using HasSuffix_append[of "ds @ '' ''" "''GiB''"] by simp
  have pf: "ParseFloat ds = (exact ?n, None)" using ParseFloat_digits[OF assms(1,2) n53] .
  have m1: "f64_mul (exact ?n) (f64_of_int 1024) = exact (?n * 1024)"
    using scale_exact[of ?n 1024] nn assms(3) by simp
  have m2: "f64_mul (exact (?n * 1024)) (f64_of_int 1024) = exact (?n * 1024 * 1024)"
    using scale_exact[of "?n * 1024" 1024] nn assms(3) by simp
  have m3: "f64_mul (exact (?n * 1024 * 1024)) (f64_of_int 1024) = exact (?n * 1024 * 1024 * 1024)"
    using scale_exact[of "?n * 1024 * 1024" 1024] nn assms(3) by simp
  have c: "F64toUint64 impl (exact (?n * 1024 * 1024 * 1024)) = word_of_int (?n * 1024 * 1024 * 1024)"
    using F64toUint64_exact[of "?n * 1024 * 1024 * 1024" impl] nn assms(3) by simp
  have tr: "TrimSuffix (ds @ '' GiB'') '' GiB'' = ds" by simp
  have "parseMemoryValue impl (ds @ '' GiB'') = word_of_int (?n * 1024 * 1024 * 1024)"
    by (simp only: parseMemoryValue_def Let_def ts h1 h2 if_True if_False tr pf fst_conv m1 m2 m3 c)
  then show ?thesis by simp
qed

lemma parsePowerValue_W:
  assumes "ds \<noteq> []" "list_all is_digit ds" "digits_val ds * 1000 < 2 ^ 53"
  shows "parsePowerValue impl (ds @ '' W'') = word_of_int (digits_val ds * 1000)"
proof -
  let ?n = "digits_val ds"
  have nn: "0 \<le> ?n" using digits_val_nonneg[OF assms(2)] .
  have n53: "?n < 2 ^ 53" using assms(3) nn by simp
  have ts: "TrimSpace (ds @ '' W'') = ds @ '' W''"
    using TrimSpace_number_unit[OF assms(1,2), of "CHR ''W''" "'' ''"] by simp
  have h1: "HasSuffix (ds @ '' W'') ''W'' = True"
    using HasSuffix_append[of "ds @ '' ''" "''W''"] by simp
  have pf: "ParseFloat ds = (exact ?n, None)" using ParseFloat_digits[OF assms(1,2) n53] .
  have m1: "f64_mul (exact ?n) (f64_of_int 1000) = exact (?n * 1000)"
    using scale_exact[of ?n 1000] nn assms(3) by simp
  have c: "F64toUint64 impl (exact (?n * 1000)) = word_of_int (?n * 1000)"
    using F64toUint64_exact[of "?n * 1000" impl] nn assms(3) by simp
  have tr: "TrimSuffix (ds @ '' W'') '' W'' = ds" by simp
  show ?thesis
    by (simp only: parsePowerValue_def Let_def ts h1 if_True tr pf fst_conv m1 c)
qed

lemma TrimSpace_digits:
  assumes "ds \<noteq> []" "list_all is_digit ds"
  shows "TrimSpace ds = ds"
proof -
  obtain c cs where ds: "ds = c # cs" using assms(1) by (cases ds) auto
  then have c: "is_digit c" using assms(2) by auto
  have "ds = butlast ds @ [last ds]" using assms(1) by simp
  then obtain xs l where xl: "ds = xs @ [l]" by blast
  then have l: "is_digit l" using assms(2) by auto
  have lw: "space_width (map rev space_seqs) (l # rev xs) = 0"
    using l unfolding is_digit_def list.set
    by (elim insertE emptyE; simp add: space_width_def space_seqs_def is_prefix_def)
  have 1: "space_width space_seqs ds = 0" using space_width_digit[OF c] by (simp add: ds)
  have 2: "space_width (map rev space_seqs) (rev ds) = 0" using lw by (simp add: xl)
  show ?thesis using TrimSpace_id[OF 1 2] .
qed

lemma HasSuffix_last: "HasSuffix (xs @ [l]) [c] \<longleftrightarrow> l = c"
  by (simp add: HasSuffix_def)

lemma parsePowerValue_bare:
  assumes "ds \<noteq> []" "list_all is_digit ds" "digits_val ds * 1000 < 2 ^ 53"
  shows "parsePowerValue impl ds = word_of_int (digits_val ds * 1000)"
proof -
  let ?n = "digits_val ds"
  have nn: "0 \<le> ?n" using digits_val_nonneg[OF assms(2)] .
  have n53: "?n < 2 ^ 53" using assms(3) nn by simp
  have ts: "TrimSpace ds = ds" using TrimSpace_digits[OF assms(1,2)] .
  have "ds = butlast ds @ [last ds]" using assms(1) by simp
  then obtain xs l where xl: "ds = xs @ [l]" by blast
  then have l: "is_digit l" using assms(2) by auto
  have lw: "l \<noteq> CHR ''W''" using l unfolding is_digit_def list.set by (elim insertE emptyE; simp)
  have h1: "HasSuffix ds ''W'' = False" using lw by (simp add: xl HasSuffix_last)
  obtain c cs where ds: "ds = c # cs" using assms(1) by (cases ds) auto
  then have c: "is_digit c" using assms(2) by auto
  have nna: "(ds = ''N/A'' \<or> ds = []) = False"
    using assms(1) c unfolding is_digit_def list.set ds by (elim insertE emptyE; simp)
  have pf: "ParseFloat ds = (exact ?n, None)" using ParseFloat_digits[OF assms(1,2) n53] .
  have m1: "f64_mul (exact ?n) (f64_of_int 1000) = exact (?n * 1000)"
    using scale_exact[of ?n 1000] nn assms(3) by simp
  have c: "F64toUint64 impl (exact (?n * 1000)) = word_of_int (?n * 1000)"
    using F64toUint64_exact[of "?n * 1000" impl] nn assms(3) by simp
  show ?thesis
    by (simp only: parsePowerValue_def Let_def ts h1 if_False nna pf prod.case option.case m1 c)
qed

lemma parseUtilization_percent:
  assumes "ds \<noteq> []" "list_all is_digit ds" "digits_val ds < 2 ^ 53"
  shows "parseUtilization (ds @ '' %'') = exact (digits_val ds)"
proof -
  have h1: "HasSuffix (ds @ '' %'') '' %'' = True" by simp
  have tr: "TrimSuffix (ds @ '' %'') '' %'' = ds" by simp
  have pf: "ParseFloat ds = (exact (digits_val ds), None)" using ParseFloat_digits[OF assms] .
  show ?thesis by (simp only: parseUtilization_def h1 if_True tr pf fst_conv)
qed

section \<open>The insertion sort is the stable sort\<close>

lemma place_right_snoc:
  "place_right f x (A @ [y]) = (if f x < f y then place_right f x A @ [y] else A @ [y, x])"
  by (simp add: place_right_def)

lemma swap_adjacent: "swap (Suc (length A)) (length A) (A @ y # x # C) = A @ x # y # C"
  by (simp add: swap_def nth_append list_update_append)

lemma insert_loop_place:
  assumes "\<And>a b. a \<in> set (A @ x # C) \<Longrightarrow> b \<in> set (A @ x # C) \<Longrightarrow> lt a b = Inr (f a < f b)"
  shows "insert_loop lt (length A) (A @ x # C) = Inr (place_right f x A @ C)"
  using assms
proof (induction A arbitrary: C rule: rev_induct)
  case Nil
  then show ?case by (simp add: place_right_def)
next
  case (snoc y A)
  have cmp: "lt x y = Inr (f x < f y)" using snoc.prems by simp
  have nx: "(A @ y # x # C) ! Suc (length A) = x" by (simp add: nth_append)
  have ny: "(A @ y # x # C) ! length A = y" by (simp add: nth_append)
  show ?case
  proof (cases "f x < f y")
    case True
    have ih: "insert_loop lt (length A) (A @ x # (y # C)) = Inr (place_right f x A @ (y # C))"
      by (rule snoc.IH) (use snoc.prems in auto)
    show ?thesis
      using True cmp ih by (simp add: nx ny swap_adjacent place_right_snoc)
  next
    case False
    then show ?thesis using cmp by (simp add: nx ny place_right_snoc)
  qed
qed


lemma mset_place_right: "mset (place_right f x A) = add_mset x (mset A)"
proof -
  let ?P = "\<lambda>y. f x < f y"
  have "mset (takeWhile ?P (rev A)) + mset (dropWhile ?P (rev A))
        = mset (takeWhile ?P (rev A) @ dropWhile ?P (rev A))"
    by (simp only: mset_append)
  also have "\<dots> = mset (rev A)" by (simp only: takeWhile_dropWhile_id)
  finally have "mset (takeWhile ?P (rev A)) + mset (dropWhile ?P (rev A)) = mset A" by simp
  then show ?thesis by (simp add: place_right_def add.commute)
qed

lemma set_place_right: "set (place_right f x A) = insert x (set A)"
proof -
  have "set_mset (mset (place_right f x A)) = set_mset (add_mset x (mset A))"
    by (simp only: mset_place_right)
  then show ?thesis by simp
qed

lemma length_place_right: "length (place_right f x A) = Suc (length A)"
proof -
  have "size (mset (place_right f x A)) = size (add_mset x (mset A))"
    by (simp only: mset_place_right)
  then show ?thesis by simp
qed

lemma sorted_place_right:
  "sorted (map f A) \<Longrightarrow> sorted (map f (place_right f x A))"
proof (induction A rule: rev_induct)
  case Nil
  then show ?case by (simp add: place_right_def)
next
  case (snoc y A)
  have sA: "sorted (map f A)" and le: "\<forall>z\<in>set A. f z \<le> f y"
    using snoc.prems by (auto simp: sorted_append)
  show ?case
  proof (cases "f x < f y")
    case True
    have "\<forall>z\<in>set (place_right f x A). f z \<le> f y"
      using le True by (auto simp: set_place_right)
    then show ?thesis using True snoc.IH[OF sA] by (simp add: place_right_snoc sorted_append)
  next
    case False
    then show ?thesis using snoc.prems le by (auto simp: place_right_snoc sorted_append)
  qed
qed

lemma filter_place_right:
  "filter (\<lambda>z. f z = k) (place_right f x A) = filter (\<lambda>z. f z = k) (A @ [x])"
proof (induction A rule: rev_induct)
  case Nil
  then show ?case by (simp add: place_right_def)
next
  case (snoc y A)
  then show ?case by (auto simp: place_right_snoc)
qed

lemma sort_loop_stable:
  fixes f :: "'a \<Rightarrow> int"
  assumes "\<And>a b. a \<in> set (A @ B) \<Longrightarrow> b \<in> set (A @ B) \<Longrightarrow> lt a b = Inr (f a < f b)"
    and "sorted (map f A)"
  shows "\<exists>R. sort_loop lt (length A) (length B) (A @ B) = Inr R \<and> mset R = mset (A @ B) \<and>
             sorted (map f R) \<and> (\<forall>k. filter (\<lambda>z. f z = k) R = filter (\<lambda>z. f z = k) (A @ B))"
  using assms
proof (induction B arbitrary: A)
  case Nil
  then show ?case by simp
next
  case (Cons x B)
  let ?A = "place_right f x A"
  have il: "insert_loop lt (length A) (A @ x # B) = Inr (?A @ B)"
    by (rule insert_loop_place) (use Cons.prems(1) in auto)
  have seteq: "set (?A @ B) = set (A @ x # B)" by (auto simp: set_place_right)
  have "\<exists>R. sort_loop lt (length ?A) (length B) (?A @ B) = Inr R \<and> mset R = mset (?A @ B) \<and>
             sorted (map f R) \<and> (\<forall>k. filter (\<lambda>z. f z = k) R = filter (\<lambda>z. f z = k) (?A @ B))"
  proof (rule Cons.IH)
    show "sorted (map f ?A)" using sorted_place_right[OF Cons.prems(2)] .
    show "lt a b = Inr (f a < f b)" if "a \<in> set (?A @ B)" "b \<in> set (?A @ B)" for a b
      using that Cons.prems(1)[of a b] unfolding seteq by simp
  qed
  then obtain R where R: "sort_loop lt (Suc (length A)) (length B) (?A @ B) = Inr R"
    "mset R = mset (?A @ B)" "sorted (map f R)"
    "\<forall>k. filter (\<lambda>z. f z = k) R = filter (\<lambda>z. f z = k) (?A @ B)"
    by (auto simp: length_place_right)
  have "sort_loop lt (length A) (length (x # B)) (A @ x # B) = Inr R"
    using il R(1) by simp
  moreover have "mset R = mset (A @ x # B)" using R(2) by (simp add: mset_place_right)
  moreover have "\<forall>k. filter (\<lambda>z. f z = k) R = filter (\<lambda>z. f z = k) (A @ x # B)"
    using R(4) filter_place_right[of f _ x A] by simp
  ultimately show ?case using R(3) by blast
qed

lemma insertionSort_stable:
  fixes f :: "'a \<Rightarrow> int"
  assumes "\<And>a b. a \<in> set xs \<Longrightarrow> b \<in> set xs \<Longrightarrow> lt a b = Inr (f a < f b)"
  shows "insertionSort lt xs = Inr (sort_key f xs)"
proof (cases xs)
  case Nil
  then show ?thesis by (simp add: insertionSort_def)
next
  case (Cons x B)
  have "\<exists>R. sort_loop lt (length [x]) (length B) ([x] @ B) = Inr R \<and> mset R = mset ([x] @ B) \<and>
             sorted (map f R) \<and> (\<forall>k. filter (\<lambda>z. f z = k) R = filter (\<lambda>z. f z = k) ([x] @ B))"
    by (rule sort_loop_stable) (use assms Cons in auto)
  then obtain R where R: "sort_loop lt 1 (length B) (x # B) = Inr R" "mset R = mset xs"
    "sorted (map f R)" "\<forall>k. filter (\<lambda>z. f z = k) R = filter (\<lambda>z. f z = k) xs"
    by (auto simp: Cons)
  have "sort_key f xs = R"
  proof (rule properties_for_sort_key)
    show "mset R = mset xs" by (rule R(2))
    show "sorted (map f R)" by (rule R(3))
    show "filter (\<lambda>x. f k = f x) R = filter (\<lambda>x. f k = f x) xs" for k
      using R(4) by (simp add: eq_commute[of "f k"])
  qed
  then show ?thesis using R(1) by (simp add: insertionSort_def Cons)
qed

section \<open>Input that is not a number\<close>

lemma ParseFloat_syntax_zero: "snd (ParseFloat s) = Some ErrSyntax \<Longrightarrow> fst (ParseFloat s) = Fin 0 0"
  by (auto simp: ParseFloat_def Let_def split: option.splits prod.splits if_splits)

lemma mul_zero_Fin: "f64_mul (Fin 0 0) (Fin m e) = Fin 0 0"
  by (simp add: round_ratio_def)

lemma mul_zero_const [simp]:
  "f64_mul (Fin 0 0) (f64_of_int 1024) = Fin 0 0" "f64_mul (Fin 0 0) (f64_of_int 1000) = Fin 0 0"
  by (simp_all add: f64_1024 f64_1000 exact_def round_ratio_def)

lemma F64toUint64_zero: "F64toUint64 impl (Fin 0 0) = 0"
  by (simp add: F64toUint64_def trunc_f64_def)

lemma parseMemoryValue_not_a_number:
  assumes "not_a_number (memory_number (TrimSpace v))"
  shows "parseMemoryValue impl v = 0"
  using assms
  by (auto simp: parseMemoryValue_def memory_number_def not_a_number_def Let_def
        ParseFloat_syntax_zero F64toUint64_zero split: if_splits)


lemma word_of_int_mono64:
  assumes "0 \<le> a" "a \<le> b" "b < 2 ^ 64"
  shows "(word_of_int a :: 64 word) \<le> word_of_int b"
proof -
  have "take_bit 64 a = a" "take_bit 64 b = b"
    using assms by (simp_all add: take_bit_int_eq_self)
  then show ?thesis using assms(2) by (simp add: word_of_int_less_eq_iff)
qed

lemma digits_example:
  "list_all is_digit ''300''" "list_all is_digit ''40960''" "list_all is_digit ''250''"
  "list_all is_digit ''35''" "digits_val ''300'' = 300" "digits_val ''40960'' = 40960"
  "digits_val ''250'' = 250" "digits_val ''35'' = 35"
  by code_simp+

lemma parsePowerValue_no_number_W:
  assumes "HasSuffix (TrimSpace v) ''W''"
    and "snd (ParseFloat (TrimSuffix (TrimSpace v) '' W'')) = Some ErrSyntax"
  shows "parsePowerValue impl v = 0"
  using assms by (simp add: parsePowerValue_def Let_def ParseFloat_syntax_zero F64toUint64_zero)

lemma parsePowerValue_no_number_bare:
  assumes "\<not> HasSuffix (TrimSpace v) ''W''" and "snd (ParseFloat (TrimSpace v)) \<noteq> None"
  shows "parsePowerValue impl v = 0"
  using assms by (auto simp: parsePowerValue_def Let_def split: prod.splits option.splits)

section \<open>The loop that fills the result\<close>

lemma gpus_loop_fills:
  "i + length devs \<le> length gpus \<Longrightarrow>
   gpus_loop impl devs i gpus = take i gpus @ map (convertGPU impl) devs @ drop (i + length devs) gpus"
proof (induction devs arbitrary: i gpus)
  case Nil
  then show ?case by simp
next
  case (Cons d devs)
  have i: "i < length gpus" using Cons.prems by simp
  have "gpus_loop impl (d # devs) i gpus = gpus_loop impl devs (Suc i) (gpus[i := convertGPU impl d])"
    by simp
  also have "\<dots> = take (Suc i) (gpus[i := convertGPU impl d]) @ map (convertGPU impl) devs
                 @ drop (Suc i + length devs) (gpus[i := convertGPU impl d])"
    by (rule Cons.IH) (use Cons.prems in simp)
  also have "take (Suc i) (gpus[i := convertGPU impl d]) = take i gpus @ [convertGPU impl d]"
    using i by (simp add: take_Suc_conv_app_nth)
  also have "drop (Suc i + length devs) (gpus[i := convertGPU impl d]) = drop (i + length (d # devs)) gpus"
    by simp
  finally show ?case by simp
qed

section \<open>The registry under updates\<close>

lemma init_nodes_fresh:
  "registry_all is_unknown a \<Longrightarrow>
   registry_all is_unknown (init_nodes ns a) \<and>
   (\<forall>node\<in>set ns. nodes (init_nodes ns a) (Name node) \<noteq> None) \<and>
   (\<forall>name. nodes a name \<noteq> None \<longrightarrow> nodes (init_nodes ns a) name \<noteq> None)"
proof (induction ns arbitrary: a)
  case Nil
  then show ?case by simp
next
  case (Cons node ns)
  let ?a = "a\<lparr>nodes := (nodes a)(Name node \<mapsto> length (heap a)),
          heap := heap a @ [\<lparr>Name = Name node, Host = Host node, Port = Port node,
                             Alias = Alias node, LastUpdate = 0, Status = ''unknown'',
                             Data = None, Error = []\<rparr>]\<rparr>"
  have f: "registry_all is_unknown ?a"
    unfolding registry_all_def
  proof (intro allI impI)
    fix name p
    assume np: "nodes ?a name = Some p"
    show "p < length (heap ?a) \<and> is_unknown (heap ?a ! p)"
    proof (cases "name = Name node")
      case True
      then have "p = length (heap a)" using np by simp
      then show ?thesis by (simp add: is_unknown_def)
    next
      case False
      then have "nodes a name = Some p" using np by simp
      then have "p < length (heap a) \<and> is_unknown (heap a ! p)"
        using Cons.prems by (simp add: registry_all_def)
      then show ?thesis by (simp add: nth_append)
    qed
  qed
  have n: "nodes ?a (Name node) \<noteq> None" by simp
  have k: "\<forall>name. nodes a name \<noteq> None \<longrightarrow> nodes ?a name \<noteq> None" by simp
  from Cons.IH[OF f] n k show ?case by (auto simp del: fun_upd_apply)
qed

lemma runAggregator_fresh:
  "registry_all is_unknown (runAggregator cfg) \<and>
   (\<forall>node\<in>set (Nodes cfg). nodes (runAggregator cfg) (Name node) \<noteq> None)"
proof -
  have "registry_all is_unknown \<lparr>config = cfg, nodes = Map.empty, heap = []\<rparr>"
    by (simp add: registry_all_def)
  from init_nodes_fresh[OF this, of "Nodes cfg"] show ?thesis by (simp add: runAggregator_def)
qed

lemma updateNodeError_nodes [simp]: "nodes (updateNodeError a name msg now) = nodes a"
  by (simp add: updateNodeError_def split: option.splits)

lemma updateNodeStatus_nodes [simp]: "nodes (updateNodeStatus a node fetch now) = nodes a"
  by (simp add: updateNodeStatus_def split: option.splits Fetch.splits sum.splits)

lemma updateNodeError_consistent:
  assumes "registry_all consistent a" "msg \<noteq> []"
  shows "registry_all consistent (updateNodeError a name msg now)"
proof (cases "nodes a name")
  case None
  then show ?thesis using assms by (simp add: updateNodeError_def)
next
  case (Some p)
  then have p: "p < length (heap a)" using assms(1) by (simp add: registry_all_def)
  show ?thesis
    using assms p Some
    by (auto simp: updateNodeError_def registry_all_def consistent_def nth_list_update)
qed

lemma updateNodeStatus_consistent:
  assumes "registry_all consistent a"
  shows "registry_all consistent (updateNodeStatus a node fetch now)"
proof (cases "succeeded fetch")
  case False
  then show ?thesis
    using assms
    by (auto simp: updateNodeStatus_def succeeded_def intro!: updateNodeError_consistent
          split: Fetch.splits sum.splits)
next
  case True
  then obtain info where f: "fetch = Response 200 (Inr info)"
    by (auto simp: succeeded_def split: Fetch.splits sum.splits)
  show ?thesis
  proof (cases "nodes a (Name node)")
    case None
    then show ?thesis using assms by (simp add: updateNodeStatus_def f)
  next
    case (Some p)
    then show ?thesis
      using assms by (auto simp: updateNodeStatus_def f registry_all_def consistent_def nth_list_update)
  qed
qed

lemma run_updates_consistent:
  "registry_all consistent a \<Longrightarrow>
   registry_all consistent (run_updates a evs) \<and> nodes (run_updates a evs) = nodes a"
proof (induction evs arbitrary: a)
  case Nil
  then show ?case by simp
next
  case (Cons ev evs)
  obtain node fetch now where ev: "ev = (node, fetch, now)" by (cases ev) auto
  show ?case
    using Cons.IH[OF updateNodeStatus_consistent[OF Cons.prems, of node fetch now]]
    by (simp add: ev)
qed

lemma updateNodeStatus_effect:
  assumes "nodes a (Name node) = Some p" "p < length (heap a)"
  shows "\<exists>st. status_of (updateNodeStatus a node fetch now) (Name node) = Some st \<and>
           LastUpdate st = now \<and>
           (\<forall>info. fetch = Response 200 (Inr info) \<longrightarrow>
                Status st = ''online'' \<and> Data st = Some info \<and> Error st = []) \<and>
           (\<not> succeeded fetch \<longrightarrow> Status st = ''offline'' \<and> Data st = None \<and> Error st \<noteq> [])"
  using assms
  by (auto simp: updateNodeStatus_def updateNodeError_def status_of_def deref_def succeeded_def
        split: Fetch.splits sum.splits)

section \<open>The invariant of the polling loop\<close>

lemma poll_step_inv: "poll_step n s s' \<Longrightarrow> poll_inv n s \<Longrightarrow> poll_inv n s'"
proof (induction rule: poll_step.induct)
  case (launch s i)
  then have "(tick s, i) \<notin> running s" by (auto simp: poll_inv_def)
  then show ?case using launch by (auto simp: poll_inv_def less_Suc_eq)
next
  case (loop_end s i)
  then show ?case by (auto simp: poll_inv_def)
next
  case (resolve w s)
  then show ?case by (auto simp: poll_inv_def split: place.splits)
next
  case (wait_returns s)
  then show ?case by (auto simp: poll_inv_def)
next
  case (ticker_fires s)
  then show ?case by (auto simp: poll_inv_def)
qed

lemma reachable_inv: "reachable n s \<Longrightarrow> poll_inv n s"
proof (induction rule: reachable.induct)
  case start
  then show ?case by (simp add: poll_inv_def poller_start_def)
next
  case (step s s')
  then show ?case using poll_step_inv by blast
qed

section \<open>The comparison on the format of the tool\<close>

lemma foldl_digits_ge:
  "list_all is_digit ds \<Longrightarrow> 0 \<le> n \<Longrightarrow> n \<le> foldl (\<lambda>n c. n * 10 + digit_val c) n ds"
proof (induction ds arbitrary: n)
  case Nil
  then show ?case by simp
next
  case (Cons c ds)
  then have d: "0 \<le> digit_val c" using digit_val_bounds[of c] by simp
  then have "n \<le> n * 10 + digit_val c" using Cons.prems(2) by simp
  moreover have "n * 10 + digit_val c \<le> foldl (\<lambda>n c. n * 10 + digit_val c) (n * 10 + digit_val c) ds"
    using Cons.IH[of "n * 10 + digit_val c"] Cons.prems d by simp
  ultimately show ?case by simp
qed

lemma uint_loop_digits:
  "list_all is_digit ds \<Longrightarrow> 0 \<le> n \<Longrightarrow> foldl (\<lambda>n c. n * 10 + digit_val c) n ds < 2 ^ 63 \<Longrightarrow>
   uint_loop (2 ^ 64 - 1) n ds = (foldl (\<lambda>n c. n * 10 + digit_val c) n ds, None)"
proof (induction ds arbitrary: n)
  case Nil
  then show ?case by simp
next
  case (Cons c ds)
  let ?m = "n * 10 + digit_val c"
  have c: "is_digit c" and ds: "list_all is_digit ds" using Cons.prems(1) by auto
  have d: "0 \<le> digit_val c" using digit_val_bounds[OF c] by simp
  have m0: "0 \<le> ?m" using d Cons.prems(2) by simp
  have "?m \<le> foldl (\<lambda>n c. n * 10 + digit_val c) ?m ds" using foldl_digits_ge[OF ds m0] .
  then have m63: "?m < 2 ^ 63" using Cons.prems(3) by simp
  then have n: "n < (2 ^ 64 - 1) div 10 + 1" using d by simp
  have "uint_loop (2 ^ 64 - 1) n (c # ds) = uint_loop (2 ^ 64 - 1) ?m ds"
    using c n m63 by simp
  then show ?case using Cons.IH[OF ds m0] Cons.prems(3) by simp
qed

lemma Atoi_digits:
  assumes "ds \<noteq> []" "list_all is_digit ds" "digits_val ds < 2 ^ 63"
  shows "Atoi ds = (digits_val ds, None)"
proof -
  obtain c cs where ds: "ds = c # cs" using assms(1) by (cases ds) auto
  then have c: "is_digit c" using assms(2) by auto
  have nc: "c \<noteq> CHR ''+''" "c \<noteq> CHR ''-''" using digit_not_special[OF c] by auto
  have u: "ParseUint10 64 ds = (digits_val ds, None)"
    using uint_loop_digits[OF assms(2), of 0] assms(1,3) by (simp add: ParseUint10_def digits_val_def)
  have nn: "0 \<le> digits_val ds" using digits_val_nonneg[OF assms(2)] .
  show ?thesis
    unfolding Atoi_def ParseInt10_def ds list.case Let_def
    using nc u assms(3) by (simp add: ds[symmetric])
qed

lemma fields_loop_digits:
  "list_all is_digit ds \<Longrightarrow> fields_loop cur acc (ds @ rest) = fields_loop (rev ds @ cur) acc rest"
proof (induction ds arbitrary: cur)
  case Nil
  then show ?case by simp
next
  case (Cons c ds)
  then have c: "is_digit c" and ds: "list_all is_digit ds" by auto
  show ?case using Cons.IH[OF ds, of "c # cur"] space_width_digit[OF c] by simp
qed

lemma fields_tail: "cur \<noteq> [] \<Longrightarrow> fields_loop cur [] '' MiB'' = [rev cur, ''MiB'']"
  by (simp add: space_width_def space_seqs_def is_prefix_def)

lemma Fields_digits_MiB:
  assumes "ds \<noteq> []" "list_all is_digit ds"
  shows "Fields (ds @ '' MiB'') = [ds, ''MiB'']"
  using fields_loop_digits[OF assms(2), of "[]" "[]" "'' MiB''"] fields_tail[of "rev ds"] assms(1)
  by (simp add: Fields_def)

lemma takeWhile_digits: "list_all is_digit (takeWhile is_digit s)"
  by (induction s) auto

lemma less_mem_mib:
  assumes "mib_format (UsedMemory a)" "mib_format (UsedMemory b)"
  shows "less_mem a b = Inr (- reported_mib a < - reported_mib b)"
proof -
  let ?da = "takeWhile is_digit (UsedMemory a)" and ?db = "takeWhile is_digit (UsedMemory b)"
  have a: "?da \<noteq> []" "digits_val ?da < 2 ^ 63" "UsedMemory a = ?da @ '' MiB''"
    using assms(1) by (auto simp: mib_format_def)
  have b: "?db \<noteq> []" "digits_val ?db < 2 ^ 63" "UsedMemory b = ?db @ '' MiB''"
    using assms(2) by (auto simp: mib_format_def)
  have fa: "Fields (UsedMemory a) = [?da, ''MiB'']"
    using Fields_digits_MiB[OF a(1) takeWhile_digits] a(3) by simp
  have fb: "Fields (UsedMemory b) = [?db, ''MiB'']"
    using Fields_digits_MiB[OF b(1) takeWhile_digits] b(3) by simp
  have aa: "Atoi ?da = (digits_val ?da, None)" using Atoi_digits[OF a(1) takeWhile_digits a(2)] .
  have ab: "Atoi ?db = (digits_val ?db, None)" using Atoi_digits[OF b(1) takeWhile_digits b(2)] .
  show ?thesis
    by (simp add: less_mem_def first_field_def fa fb aa ab reported_mib_def)
qed

lemma gap_pass_short: "length xs \<le> 6 \<Longrightarrow> gap_pass lt xs = Inr xs"
  by (simp add: gap_pass_def)

lemma sort_Slice_stable:
  fixes f :: "'a \<Rightarrow> int"
  assumes "\<And>a b. a \<in> set xs \<Longrightarrow> b \<in> set xs \<Longrightarrow> lt a b = Inr (f a < f b)"
    and "length xs \<le> 6 \<or> (rel = Since_1_19 \<and> length xs \<le> 12)"
  shows "sort_Slice rel lib lt xs = Inr (sort_key f xs)"
proof -
  have s: "insertionSort lt xs = Inr (sort_key f xs)" using insertionSort_stable[of xs lt f] assms(1) by blast
  show ?thesis
  proof (cases rel)
    case Before_1_19
    then have "length xs \<le> 6" using assms(2) by auto
    then show ?thesis using s Before_1_19 by (simp add: sort_Slice_def gap_pass_short)
  next
    case Since_1_19
    then show ?thesis using s assms(2) by (auto simp: sort_Slice_def)
  qed
qed

lemma rank_processes_mib:
  assumes "\<forall>p\<in>set (gProcesses gpu). mib_format (UsedMemory p)"
    and "length (gProcesses gpu) \<le> 6 \<or> (rel = Since_1_19 \<and> length (gProcesses gpu) \<le> 12)"
  shows "rank_processes rel lib ps gpu =
         Inr (gpu\<lparr>gProcesses :=
                take 2 (sort_key (\<lambda>p. - reported_mib p) (map (with_owner ps) (gProcesses gpu)))\<rparr>)"
proof -
  let ?procs = "map (with_owner ps) (gProcesses gpu)"
  have fm: "\<forall>p\<in>set ?procs. mib_format (UsedMemory p)"
    using assms(1) by (auto simp: with_owner_def)
  have cmp: "less_mem a b = Inr (- reported_mib a < - reported_mib b)"
    if "a \<in> set ?procs" "b \<in> set ?procs" for a b
    using less_mem_mib[of a b] fm that by blast
  have len: "length ?procs \<le> 6 \<or> (rel = Since_1_19 \<and> length ?procs \<le> 12)"
    using assms(2) by simp
  have s: "sort_Slice rel lib less_mem ?procs = Inr (sort_key (\<lambda>p. - reported_mib p) ?procs)"
    by (rule sort_Slice_stable[OF cmp len])
  have w: "map (\<lambda>proc. proc\<lparr>Username := ps (Pid proc)\<rparr>) (gProcesses gpu) = ?procs"
    by (simp add: with_owner_def)
  show ?thesis
    unfolding rank_processes_def Let_def w s by simp
qed

lemma rank_all_mib:
  assumes "\<forall>gpu\<in>set gpus. (\<forall>p\<in>set (gProcesses gpu). mib_format (UsedMemory p)) \<and>
             (length (gProcesses gpu) \<le> 6 \<or> (rel = Since_1_19 \<and> length (gProcesses gpu) \<le> 12))"
  shows "rank_all rel lib ps gpus = Inr (map (ranked ps) gpus)"
  using assms
proof (induction gpus)
  case Nil
  then show ?case by simp
next
  case (Cons gpu gpus)
  have "rank_processes rel lib ps gpu = Inr (ranked ps gpu)"
    unfolding ranked_def by (rule rank_processes_mib) (use Cons.prems in auto)
  moreover have "rank_all rel lib ps gpus = Inr (map (ranked ps) gpus)"
    by (rule Cons.IH) (use Cons.prems in auto)
  ultimately show ?case by simp
qed

lemma example_mib:
  "mib_format ''500 MiB''" "mib_format ''3000 MiB''" "mib_format ''1000 MiB''"
  "mib_format ''100 MiB''" "mib_format ''300 MiB''"
  by code_simp+

lemma example_keys:
  "reported_mib (with_owner ps (example_proc pid ''500 MiB'')) = 500"
  "reported_mib (with_owner ps (example_proc pid ''3000 MiB'')) = 3000"
  "reported_mib (with_owner ps (example_proc pid ''1000 MiB'')) = 1000"
  "reported_mib (with_owner ps (example_proc pid ''100 MiB'')) = 100"
  "reported_mib (with_owner ps (example_proc pid ''300 MiB'')) = 300"
  by (simp_all add: reported_mib_def with_owner_def example_proc_def is_digit_def digits_val_def
        digit_val_def)

section \<open>Properties of the process ranking\<close>

text \<open>
  Claim C10.  The comparison reads element 0 of \<open>Fields\<close> of the \<open>used_memory\<close> string
  without checking that there is one.  With two processes on a device, one of them
  with an empty \<open>used_memory\<close> (first device below) or one made of white space only
  (second request below), the handler ends in the panic "index out of range"; the
  field is not taken as zero.
\<close>

theorem gpuInfoHandler_panics_on_blank_used_memory:
  "gpuInfoHandler rel lib ps
     (Inr [\<lparr>gID = ''00000000:01:00.0'', gProductName = ''A100'', gMemoryTotal = ''40960 MiB'',
            gMemoryUsed = ''300 MiB'', gUtilization = ''0 %'', gPowerDraw = ''50.00 W'',
            gProcesses =
              [\<lparr>Pid = ''100'', ProcessName = ''python'', UsedMemory = ''300 MiB'', Username = []\<rparr>,
               \<lparr>Pid = ''200'', ProcessName = ''idle'', UsedMemory = [], Username = []\<rparr>]\<rparr>])
     = Inl IndexOutOfRange
   \<and> gpuInfoHandler rel lib ps
     (Inr [\<lparr>gID = ''00000000:01:00.0'', gProductName = ''A100'', gMemoryTotal = ''40960 MiB'',
            gMemoryUsed = ''300 MiB'', gUtilization = ''0 %'', gPowerDraw = ''50.00 W'',
            gProcesses =
              [\<lparr>Pid = ''100'', ProcessName = ''python'', UsedMemory = ''  '', Username = []\<rparr>,
               \<lparr>Pid = ''200'', ProcessName = ''idle'', UsedMemory = ''12 MiB'', Username = []\<rparr>]\<rparr>])
     = Inl IndexOutOfRange"
  by (cases rel; hypsubst; code_simp)



section \<open>Properties of the unit normalizers\<close>

text \<open>
  Claim C2.  A number of bytes written like the other units, with a space before the
  unit, is not read: the branch for bytes strips \<open>B\<close> only, \<open>ParseFloat\<close> rejects what is
  left (\<open>100\<close> followed by a space), and the result is 0.  Without the space the
  number is read.  The branches for KiB, MiB and GiB strip the space together with the
  unit and give the number of bytes.
\<close>

theorem parseMemoryValue_bytes_after_space:
  "parseMemoryValue impl ''100 B'' = 0 \<and> parseMemoryValue impl ''100B'' = 100 \<and>
   parseMemoryValue impl ''100 KiB'' = 102400 \<and>
   parseMemoryValue impl ''1024 MiB'' = 1073741824 \<and> parseMemoryValue impl ''1 GiB'' = 1073741824"
  by code_simp

text \<open>
  Claim C5, as stated, fails: the parser normalizes the used and the total memory each
  on its own and compares nothing.  For a device reported with 2 MiB used of 1 MiB,
  both of them parseable, the record has \<open>memory_used = 2097152\<close> above
  \<open>memory_total = 1048576\<close>.
\<close>

theorem memory_used_exceeds_total_counterexample:
  "MemoryTotal (convertGPU uint64_arm64 (example_gpu ''2 MiB'' ''1 MiB'')) = 1048576 \<and>
   MemoryUsed (convertGPU uint64_arm64 (example_gpu ''2 MiB'' ''1 MiB'')) = 2097152 \<and>
   \<not> MemoryUsed (convertGPU uint64_arm64 (example_gpu ''2 MiB'' ''1 MiB''))
       \<le> MemoryTotal (convertGPU uint64_arm64 (example_gpu ''2 MiB'' ''1 MiB''))"
  by code_simp

text \<open>
  Claim C5, amended.  When nvidia-smi reports used and total as decimal integers in
  the same unit (KiB, MiB or GiB), used at most total and total below \<open>2 ^ 23\<close>, the
  record has \<open>memory_used \<le> memory_total\<close>; the parser does not check the relation
  otherwise.  A memory field with no unit, or whose number \<open>ParseFloat\<close> rejects as
  not syntactically a number, becomes 0 in the record, which is still produced.
\<close>

theorem memory_used_le_total_as_reported:
  "(du \<noteq> [] \<and> list_all is_digit du \<and> dt \<noteq> [] \<and> list_all is_digit dt \<and>
    unit \<in> {'' KiB'', '' MiB'', '' GiB''} \<and> xFBUsed gpu = du @ unit \<and> xFBTotal gpu = dt @ unit \<and>
    digits_val du \<le> digits_val dt \<and> digits_val dt < 2 ^ 23
      \<longrightarrow> MemoryUsed (convertGPU impl gpu) \<le> MemoryTotal (convertGPU impl gpu)) \<and>
   (not_a_number (memory_number (TrimSpace (xFBUsed gpu))) \<longrightarrow> MemoryUsed (convertGPU impl gpu) = 0) \<and>
   (not_a_number (memory_number (TrimSpace (xFBTotal gpu))) \<longrightarrow> MemoryTotal (convertGPU impl gpu) = 0)"
proof (intro conjI impI)
  assume a: "du \<noteq> [] \<and> list_all is_digit du \<and> dt \<noteq> [] \<and> list_all is_digit dt \<and>
    unit \<in> {'' KiB'', '' MiB'', '' GiB''} \<and> xFBUsed gpu = du @ unit \<and> xFBTotal gpu = dt @ unit \<and>
    digits_val du \<le> digits_val dt \<and> digits_val dt < 2 ^ 23"
  let ?u = "digits_val du" and ?t = "digits_val dt"
  have u0: "0 \<le> ?u" using a digits_val_nonneg by blast
  have ut: "?u \<le> ?t" and t23: "?t < 2 ^ 23" using a by auto
  have mono: "(word_of_int (?u * c) :: 64 word) \<le> word_of_int (?t * c)"
    if "0 < c" "c \<le> 2 ^ 30" for c
  proof (rule word_of_int_mono64)
    show "0 \<le> ?u * c" using u0 that by simp
    show "?u * c \<le> ?t * c" using ut that by (simp add: mult_right_mono)
    have "?t * c \<le> ?t * 2 ^ 30" using that u0 ut by (intro mult_left_mono) auto
    also have "\<dots> < 2 ^ 23 * 2 ^ 30" using t23 by simp
    also have "\<dots> < (2::int) ^ 64" by simp
    finally show "?t * c < 2 ^ 64" .
  qed
  have b: "x * 2 ^ 10 < 2 ^ 53 \<and> x * 2 ^ 20 < 2 ^ 53 \<and> x * 2 ^ 30 < 2 ^ 53"
    if "x < 2 ^ 23" for x :: int
    using that by simp
  have bu: "?u < 2 ^ 23" using ut t23 by linarith
  have du: "du \<noteq> []" "list_all is_digit du" and dt: "dt \<noteq> []" "list_all is_digit dt"
    using a by auto
  have fu: "xFBUsed gpu = du @ unit" and ft: "xFBTotal gpu = dt @ unit" using a by auto
  have "unit = '' KiB'' \<or> unit = '' MiB'' \<or> unit = '' GiB''" using a by auto
  then have "parseMemoryValue impl (du @ unit) \<le> parseMemoryValue impl (dt @ unit)"
  proof (elim disjE)
    assume u: "unit = '' KiB''"
    show ?thesis
      unfolding u
      using parseMemoryValue_KiB[OF du, of impl] parseMemoryValue_KiB[OF dt, of impl]
        b[OF bu] b[OF t23] mono[of "2 ^ 10"] by simp
  next
    assume u: "unit = '' MiB''"
    show ?thesis
      unfolding u
      using parseMemoryValue_MiB[OF du, of impl] parseMemoryValue_MiB[OF dt, of impl]
        b[OF bu] b[OF t23] mono[of "2 ^ 20"] by simp
  next
    assume u: "unit = '' GiB''"
    show ?thesis
      unfolding u
      using parseMemoryValue_GiB[OF du, of impl] parseMemoryValue_GiB[OF dt, of impl]
        b[OF bu] b[OF t23] mono[of "2 ^ 30"] by simp
  qed
  then show "MemoryUsed (convertGPU impl gpu) \<le> MemoryTotal (convertGPU impl gpu)"
    by (simp add: convertGPU_def fu ft)
next
  assume "not_a_number (memory_number (TrimSpace (xFBUsed gpu)))"
  then show "MemoryUsed (convertGPU impl gpu) = 0"
    by (simp add: convertGPU_def parseMemoryValue_not_a_number)
next
  assume "not_a_number (memory_number (TrimSpace (xFBTotal gpu)))"
  then show "MemoryTotal (convertGPU impl gpu) = 0"
    by (simp add: convertGPU_def parseMemoryValue_not_a_number)
qed

theorem memory_used_le_total_as_reported_witness:
  "MemoryUsed (convertGPU uint64_arm64 (example_gpu ''300 MiB'' ''40960 MiB''))
     \<le> MemoryTotal (convertGPU uint64_arm64 (example_gpu ''300 MiB'' ''40960 MiB'')) \<and>
   MemoryUsed (convertGPU uint64_arm64 (example_gpu ''[N/A]'' ''40960 MiB'')) = 0 \<and>
   MemoryTotal (convertGPU uint64_arm64 (example_gpu ''300 MiB'' ''4x MiB'')) = 0"
proof -
  have n1: "not_a_number (memory_number (TrimSpace ''[N/A]''))" by code_simp
  have n2: "not_a_number (memory_number (TrimSpace ''4x MiB''))" by code_simp
  show ?thesis
    using memory_used_le_total_as_reported
            [of "''300''" "''40960''" "'' MiB''" "example_gpu ''300 MiB'' ''40960 MiB''" uint64_arm64]
          memory_used_le_total_as_reported
            [of "''300''" "''40960''" "'' MiB''" "example_gpu ''[N/A]'' ''40960 MiB''" uint64_arm64]
          memory_used_le_total_as_reported
            [of "''300''" "''40960''" "'' MiB''" "example_gpu ''300 MiB'' ''4x MiB''" uint64_arm64]
          n1 n2
    by (simp add: example_gpu_def digits_example is_digit_def)
qed


text \<open>
  Claim C6, as stated, fails: the utilization is the number that \<open>ParseFloat\<close> reads and
  nothing bounds it.  The string \<open>150 %\<close> has the form of the claim and is normalized
  to the float 150, outside the interval from 0 to 100.
\<close>

theorem utilization_above_100_counterexample:
  "parseUtilization ''150 %'' = Fin 5277655813324800 (- 45) \<and>
   valof (parseUtilization ''150 %'') = Some 150 \<and>
   \<not> in_percent_range (parseUtilization ''150 %'')"
proof -
  have e: "parseUtilization ''150 %'' = Fin 5277655813324800 (- 45)" by code_simp
  show ?thesis by (simp add: e in_percent_range_def valof_def power_int_minus)
qed

text \<open>
  Claim C6, amended.  For a string of decimal digits followed by \<open> %\<close> (the number
  below \<open>2 ^ 53\<close>) the normalized utilization is that number as a float, unchanged:
  it lies between 0 and 100 exactly when the number does.
\<close>

theorem parseUtilization_is_the_number:
  assumes "ds \<noteq> []" "list_all is_digit ds" "digits_val ds < 2 ^ 53"
  shows "valof (parseUtilization (ds @ '' %'')) = Some (of_int (digits_val ds)) \<and>
         (in_percent_range (parseUtilization (ds @ '' %'')) \<longleftrightarrow> digits_val ds \<le> 100)"
proof -
  have nn: "0 \<le> digits_val ds" using digits_val_nonneg[OF assms(2)] .
  have v: "valof (parseUtilization (ds @ '' %'')) = Some (of_int (digits_val ds))"
    using parseUtilization_percent[OF assms] valof_exact[OF nn assms(3)] by simp
  have "(of_int (digits_val ds) :: rat) \<le> 100 \<longleftrightarrow> digits_val ds \<le> 100"
    using of_int_le_iff[of "digits_val ds" 100, where ?'a = rat] by simp
  then show ?thesis using v nn by (simp add: in_percent_range_def)
qed

theorem parseUtilization_is_the_number_witness:
  "valof (parseUtilization ''35 %'') = Some 35 \<and> in_percent_range (parseUtilization ''35 %'')"
  using parseUtilization_is_the_number[of "''35''"]
  by (simp add: digits_example is_digit_def)

text \<open>
  Claim C8.  \<open>parsePowerValue\<close> multiplies the watts by 1000 in float64 and converts the
  product to an integer without rounding it.  The float64 nearest to 32.01 lies below
  32.01, the product is 32009.999999999996, and the conversion drops the fraction:
  \<open>32.01 W\<close>, a value in the format of the tool, gives 32009 milliwatts where 32.01
  watts are 32010.  Values whose product is exact come out right, as \<open>250.00 W\<close> and
  \<open>250.75 W\<close> do.
\<close>

theorem parsePowerValue_loses_a_milliwatt:
  "parsePowerValue impl ''32.01 W'' = 32009 \<and>
   parsePowerValue impl ''250.00 W'' = 250000 \<and>
   parsePowerValue impl ''250.75 W'' = 250750"
  by code_simp

section \<open>Properties of the parser\<close>

text \<open>
  Claim C9.  When the output of the tool is unmarshalled successfully, the parser
  returns no error and one record per device node, the record at index \<open>i\<close> being
  the conversion of the device at index \<open>i\<close> (so the identifiers come in the order
  of the report); with no device node the result is the empty sequence.
\<close>

theorem parser_keeps_device_order:
  assumes "unmarshal out = Inr smi"
  shows "\<exists>gpus. getGPUInfoFromNvidiaSmi impl unmarshal (Inr out) = Inr gpus \<and>
           length gpus = length (GPUs smi) \<and>
           (\<forall>i < length (GPUs smi). gpus ! i = convertGPU impl (GPUs smi ! i) \<and>
                                     ID (gpus ! i) = xID (GPUs smi ! i)) \<and>
           (GPUs smi = [] \<longrightarrow> gpus = [])"
proof -
  have "gpus_loop impl (GPUs smi) 0 (replicate (length (GPUs smi)) zeroGPUInfo)
        = map (convertGPU impl) (GPUs smi)"
    using gpus_loop_fills[of 0 "GPUs smi" "replicate (length (GPUs smi)) zeroGPUInfo" impl] by simp
  then show ?thesis using assms by (simp add: getGPUInfoFromNvidiaSmi_def convertGPU_def)
qed

theorem parser_keeps_device_order_witness:
  "(\<exists>gpus. getGPUInfoFromNvidiaSmi uint64_arm64 example_unmarshal (Inr ''<nvidia_smi_log>...'') = Inr gpus \<and>
       length gpus = 2 \<and> ID (gpus ! 0) = ''00000000:81:00.0'' \<and> ID (gpus ! 1) = ''00000000:01:00.0'') \<and>
   getGPUInfoFromNvidiaSmi uint64_arm64 example_unmarshal (Inr ''<nvidia_smi_log/>'') = Inr []"
proof -
  have u1: "example_unmarshal ''<nvidia_smi_log>...'' = Inr example_smi"
    by (simp add: example_unmarshal_def)
  have u2: "example_unmarshal ''<nvidia_smi_log/>'' = Inr \<lparr>AttachedGPUs = 0, GPUs = []\<rparr>"
    by (simp add: example_unmarshal_def)
  have len: "length (GPUs example_smi) = 2" by (simp add: example_smi_def)
  from parser_keeps_device_order[where unmarshal = example_unmarshal and impl = uint64_arm64, OF u1]
  obtain gpus where
    g: "getGPUInfoFromNvidiaSmi uint64_arm64 example_unmarshal (Inr ''<nvidia_smi_log>...'') = Inr gpus"
       "length gpus = length (GPUs example_smi)"
       "\<forall>i < length (GPUs example_smi). gpus ! i = convertGPU uint64_arm64 (GPUs example_smi ! i) \<and>
                                     ID (gpus ! i) = xID (GPUs example_smi ! i)"
    by blast
  have "ID (gpus ! 0) = xID (GPUs example_smi ! 0)" "ID (gpus ! 1) = xID (GPUs example_smi ! 1)"
    using g(3) len by (simp_all add: convertGPU_def)
  then have ids: "ID (gpus ! 0) = ''00000000:81:00.0''" "ID (gpus ! 1) = ''00000000:01:00.0''"
    by (simp_all add: example_smi_def example_gpu_def)
  from parser_keeps_device_order[where unmarshal = example_unmarshal and impl = uint64_arm64, OF u2]
  have e: "getGPUInfoFromNvidiaSmi uint64_arm64 example_unmarshal (Inr ''<nvidia_smi_log/>'') = Inr []"
    by auto
  show ?thesis using g(1,2) len ids e by auto
qed


section \<open>Properties of the aggregator\<close>

text \<open>
  Claim C1.  For a configured node: after the start its record is \<open>unknown\<close> with no
  telemetry and no error; after any updates, one more update of that node leaves its
  record \<open>online\<close> with the decoded telemetry and an empty error when the fetch
  succeeded (status 200 and a body that decodes), and \<open>offline\<close> with no telemetry and
  a non-empty error in every other case (request not created, transport failure,
  another status, body that does not decode); and at every moment every record has
  one of these three shapes, never a mix.
\<close>

theorem host_state_machine:
  assumes "node \<in> set (Nodes cfg)"
  shows "(\<exists>st. status_of (runAggregator cfg) (Name node) = Some st \<and>
             Status st = ''unknown'' \<and> Data st = None \<and> Error st = []) \<and>
         (\<exists>st. status_of (updateNodeStatus (run_updates (runAggregator cfg) evs) node fetch now)
                 (Name node) = Some st \<and>
             (\<forall>info. fetch = Response 200 (Inr info) \<longrightarrow>
                Status st = ''online'' \<and> Data st = Some info \<and> Error st = []) \<and>
             (\<not> succeeded fetch \<longrightarrow>
                Status st = ''offline'' \<and> Data st = None \<and> Error st \<noteq> [])) \<and>
         (\<forall>name st. status_of (run_updates (runAggregator cfg) evs) name = Some st \<longrightarrow> consistent st)"
proof -
  let ?init = "runAggregator cfg" and ?cur = "run_updates (runAggregator cfg) evs"
  have fr: "registry_all is_unknown ?init" and dom: "nodes ?init (Name node) \<noteq> None"
    using runAggregator_fresh[of cfg] assms by auto
  then obtain p where p: "nodes ?init (Name node) = Some p" by auto
  then have pl: "p < length (heap ?init)" and un: "is_unknown (heap ?init ! p)"
    using fr by (auto simp: registry_all_def)
  have 1: "\<exists>st. status_of ?init (Name node) = Some st \<and>
             Status st = ''unknown'' \<and> Data st = None \<and> Error st = []"
    using p pl un by (simp add: status_of_def deref_def is_unknown_def)
  have c0: "registry_all consistent ?init"
    using fr by (auto simp: registry_all_def is_unknown_def consistent_def)
  have ca: "registry_all consistent ?cur" and na: "nodes ?cur = nodes ?init"
    using run_updates_consistent[OF c0, of evs] by auto
  have pa: "nodes ?cur (Name node) = Some p" using p na by simp
  then have pla: "p < length (heap ?cur)" using ca by (simp add: registry_all_def)
  have 2: "\<exists>st. status_of (updateNodeStatus ?cur node fetch now) (Name node) = Some st \<and>
             (\<forall>info. fetch = Response 200 (Inr info) \<longrightarrow>
                Status st = ''online'' \<and> Data st = Some info \<and> Error st = []) \<and>
             (\<not> succeeded fetch \<longrightarrow>
                Status st = ''offline'' \<and> Data st = None \<and> Error st \<noteq> [])"
    using updateNodeStatus_effect[OF pa pla, of fetch now] by blast
  have 3: "\<forall>name st. status_of ?cur name = Some st \<longrightarrow> consistent st"
    using ca by (auto simp: registry_all_def status_of_def deref_def split: option.splits if_splits)
  show ?thesis using 1 2 3 by blast
qed

theorem host_state_machine_witness:
  "(\<exists>st. status_of (runAggregator example_cfg) ''gpu1'' = Some st \<and>
       Status st = ''unknown'' \<and> Data st = None \<and> Error st = []) \<and>
   (\<exists>st. status_of (updateNodeStatus (runAggregator example_cfg) example_node
                      (Response 200 (Inr example_info)) 5) ''gpu1'' = Some st \<and>
       Status st = ''online'' \<and> Data st = Some example_info \<and> Error st = []) \<and>
   (\<exists>st. status_of (updateNodeStatus
                      (run_updates (runAggregator example_cfg)
                         [(example_node, Response 200 (Inr example_info), 5)])
                      example_node (Response 503 (Inl [])) 10) ''gpu1'' = Some st \<and>
       Status st = ''offline'' \<and> Data st = None \<and> Error st \<noteq> [])"
proof -
  have m: "example_node \<in> set (Nodes example_cfg)" by (simp add: example_cfg_def)
  have n: "Name example_node = ''gpu1''" by (simp add: example_node_def)
  have s: "\<not> succeeded (Response 503 (Inl []))" by (simp add: succeeded_def)
  have 1: "\<exists>st. status_of (runAggregator example_cfg) ''gpu1'' = Some st \<and>
       Status st = ''unknown'' \<and> Data st = None \<and> Error st = []"
    using host_state_machine[OF m, of "[]" "Response 200 (Inr example_info)" 5]
    unfolding n by blast
  have 2: "\<exists>st. status_of (updateNodeStatus (runAggregator example_cfg) example_node
                      (Response 200 (Inr example_info)) 5) ''gpu1'' = Some st \<and>
       Status st = ''online'' \<and> Data st = Some example_info \<and> Error st = []"
    using host_state_machine[OF m, of "[]" "Response 200 (Inr example_info)" 5]
    unfolding n run_updates.simps by blast
  have 3: "\<exists>st. status_of (updateNodeStatus
                      (run_updates (runAggregator example_cfg)
                         [(example_node, Response 200 (Inr example_info), 5)])
                      example_node (Response 503 (Inl [])) 10) ''gpu1'' = Some st \<and>
       Status st = ''offline'' \<and> Data st = None \<and> Error st \<noteq> []"
    using host_state_machine[OF m, of "[(example_node, Response 200 (Inr example_info), 5)]"
             "Response 503 (Inl [])" 10] s
    unfolding n by blast
  show ?thesis using 1 2 3 by blast
qed

text \<open>
  Claim C4.  The slice that the listing builds under the read lock holds the pointers
  of the map, not copies of the records.  Taken at start, when the node is \<open>unknown\<close>,
  and encoded after an update of the poller has run, it is encoded as \<open>online\<close> with
  the new telemetry: the encoder reads the live record.
\<close>

theorem nodesHandler_encodes_later_write:
  "collect_nodes [''gpu1''] (runAggregator example_cfg) = [0] \<and>
   map (map_option Status)
     (encode_nodes (runAggregator example_cfg)
        (collect_nodes [''gpu1''] (runAggregator example_cfg))) = [Some ''unknown''] \<and>
   map (map_option Status)
     (encode_nodes
        (updateNodeStatus (runAggregator example_cfg) example_node (Response 200 (Inr example_info)) 5)
        (collect_nodes [''gpu1''] (runAggregator example_cfg))) = [Some ''online''] \<and>
   map (map_option Data)
     (encode_nodes
        (updateNodeStatus (runAggregator example_cfg) example_node (Response 200 (Inr example_info)) 5)
        (collect_nodes [''gpu1''] (runAggregator example_cfg))) = [Some (Some example_info)]"
  by (simp add: collect_nodes_def encode_nodes_def runAggregator_def example_cfg_def
        example_node_def updateNodeStatus_def deref_def List.map_filter_def)

text \<open>
  Claim C7.  In every reachable state of the polling loop: while the goroutine waits
  for the ticker no fetch is unresolved; when it is about to launch the fetch of node
  \<open>i\<close> only fetches of earlier nodes are unresolved; every unresolved fetch was
  launched by the current tick, so fetches of two ticks never coexist; and the counter
  of the wait group is the number of unresolved fetches.
\<close>

theorem tick_barrier:
  assumes "reachable n s"
  shows "(place s = TimerWait \<longrightarrow> running s = {}) \<and>
         (\<forall>i. place s = Spawning i \<longrightarrow> (\<forall>w\<in>running s. snd w < i)) \<and>
         (\<forall>w\<in>running s. fst w = tick s) \<and>
         wg s = card (running s)"
  using reachable_inv[OF assms] by (auto simp: poll_inv_def split: place.splits)

theorem tick_barrier_witness:
  "reachable 2 \<lparr>tick = 0, place = Waiting, wg = 1, running = {(0, 1)}\<rparr> \<and>
   fst (0 :: nat, 1 :: nat) = tick \<lparr>tick = 0, place = Waiting, wg = 1, running = {(0, 1)}\<rparr> \<and>
   \<not> reachable 2 \<lparr>tick = 0, place = TimerWait, wg = 1, running = {(0, 1)}\<rparr> \<and>
   \<not> reachable 2 \<lparr>tick = 1, place = Spawning 1, wg = 2, running = {(0, 1), (1, 0)}\<rparr>"
proof -
  have r0: "reachable 2 \<lparr>tick = 0, place = Spawning 0, wg = 0, running = {}\<rparr>"
    using reachable.start[of 2] by (simp add: poller_start_def)
  have r1: "reachable 2 \<lparr>tick = 0, place = Spawning 1, wg = 1, running = {(0, 0)}\<rparr>"
    using reachable.step[OF r0 poll_step.launch[of _ 0]] by simp
  have r2: "reachable 2 \<lparr>tick = 0, place = Spawning 2, wg = 2, running = {(0, 1), (0, 0)}\<rparr>"
    using reachable.step[OF r1 poll_step.launch[of _ 1]] by (simp add: numeral_2_eq_2)
  have r3: "reachable 2 \<lparr>tick = 0, place = Waiting, wg = 2, running = {(0, 1), (0, 0)}\<rparr>"
    using reachable.step[OF r2 poll_step.loop_end[of _ 2]] by simp
  have r4: "reachable 2 \<lparr>tick = 0, place = Waiting, wg = 1, running = {(0, 1)}\<rparr>"
  proof -
    have "{(0::nat, 1::nat), (0, 0)} - {(0, 0)} = {(0, 1)}" by auto
    then show ?thesis using reachable.step[OF r3 poll_step.resolve[of "(0, 0)"]] by simp
  qed
  have n1: "\<not> reachable 2 \<lparr>tick = 0, place = TimerWait, wg = 1, running = {(0, 1)}\<rparr>"
    using tick_barrier[of 2 "\<lparr>tick = 0, place = TimerWait, wg = 1, running = {(0, 1)}\<rparr>"] by auto
  have n2: "\<not> reachable 2 \<lparr>tick = 1, place = Spawning 1, wg = 2, running = {(0, 1), (1, 0)}\<rparr>"
    using tick_barrier[of 2 "\<lparr>tick = 1, place = Spawning 1, wg = 2, running = {(0, 1), (1, 0)}\<rparr>"]
    by auto
  have a: "fst (0 :: nat, 1 :: nat) = tick \<lparr>tick = 0, place = Waiting, wg = 1, running = {(0, 1)}\<rparr>"
    using tick_barrier[OF r4] by simp
  show ?thesis using r4 a n1 n2 by blast
qed


section \<open>The ranking on the format of the tool\<close>

text \<open>
  Claim C3, as stated, fails: \<^verbatim>\<open>sort.Slice\<close> is not a stable sort.  Built with a Go
  release before 1.19, seven processes reporting 100, 100, 10, 10, 10, 10 and 200 MiB
  (pids 1 to 7) first go through the pass with gap 6, which swaps the first process
  with the last, and the insertion sort then leaves pid 2 in front of pid 1: the
  handler answers with pids 7 and 2, where ties in report order give pids 7 and 1.
\<close>

theorem ranking_not_stable_counterexample:
  "gpuInfoHandler Before_1_19 insertionSort ps_root (Inr [example_gpu2 seven_processes])
     = Inr (JSONBody [example_gpu2 [with_owner ps_root (example_proc ''7'' ''200 MiB''),
                                    with_owner ps_root (example_proc ''2'' ''100 MiB'')]]) \<and>
   gpuInfoHandler Before_1_19 insertionSort ps_root (Inr [example_gpu2 seven_processes])
     \<noteq> Inr (JSONBody [example_gpu2 [with_owner ps_root (example_proc ''7'' ''200 MiB''),
                                    with_owner ps_root (example_proc ''1'' ''100 MiB'')]])"
  by code_simp

text \<open>
  Claim C3, amended.  When every process of every device reports its memory in the
  format of the tool, and every device has at most 6 processes (at most 12 when the
  program is built with Go 1.19 or later), the handler answers with the devices in
  order, each with its processes sorted by used memory, largest first, ties in the
  order of the report, cut to the first two.  The witness has the memory values 500,
  3000, 1000, which give 3000, 1000, and a tie that keeps its order.
\<close>

theorem processes_ranked_by_reported_mib:
  assumes "\<forall>gpu\<in>set gpus. (\<forall>p\<in>set (gProcesses gpu). mib_format (UsedMemory p)) \<and>
             (length (gProcesses gpu) \<le> 6 \<or> (rel = Since_1_19 \<and> length (gProcesses gpu) \<le> 12))"
  shows "gpuInfoHandler rel lib ps (Inr gpus) = Inr (JSONBody (map (ranked ps) gpus))"
  using rank_all_mib[OF assms] by (simp add: gpuInfoHandler_def)

theorem processes_ranked_by_reported_mib_witness:
  "gpuInfoHandler Before_1_19 insertionSort ps_root
     (Inr [example_gpu2 [example_proc ''1'' ''500 MiB'', example_proc ''2'' ''3000 MiB'',
                         example_proc ''3'' ''1000 MiB''],
           example_gpu2 [example_proc ''4'' ''100 MiB'', example_proc ''5'' ''300 MiB'',
                         example_proc ''6'' ''100 MiB'']])
   = Inr (JSONBody
       [example_gpu2 [with_owner ps_root (example_proc ''2'' ''3000 MiB''),
                      with_owner ps_root (example_proc ''3'' ''1000 MiB'')],
        example_gpu2 [with_owner ps_root (example_proc ''5'' ''300 MiB''),
                      with_owner ps_root (example_proc ''4'' ''100 MiB'')]])"
proof -
  let ?gpus = "[example_gpu2 [example_proc ''1'' ''500 MiB'', example_proc ''2'' ''3000 MiB'',
                         example_proc ''3'' ''1000 MiB''],
           example_gpu2 [example_proc ''4'' ''100 MiB'', example_proc ''5'' ''300 MiB'',
                         example_proc ''6'' ''100 MiB'']]"
  have h: "\<forall>gpu\<in>set ?gpus. (\<forall>p\<in>set (gProcesses gpu). mib_format (UsedMemory p)) \<and>
             (length (gProcesses gpu) \<le> 6 \<or> (Before_1_19 = Since_1_19 \<and> length (gProcesses gpu) \<le> 12))"
    by (simp add: example_gpu2_def example_proc_def example_mib)
  have r: "map (ranked ps_root) ?gpus =
       [example_gpu2 [with_owner ps_root (example_proc ''2'' ''3000 MiB''),
                      with_owner ps_root (example_proc ''3'' ''1000 MiB'')],
        example_gpu2 [with_owner ps_root (example_proc ''5'' ''300 MiB''),
                      with_owner ps_root (example_proc ''4'' ''100 MiB'')]]"
    by (simp add: ranked_def example_gpu2_def example_keys)
  show ?thesis
    using processes_ranked_by_reported_mib[OF h, of insertionSort ps_root] unfolding r .
qed

end
